theory Spec2Isabelle
  imports Main
begin

section \<open>The locator service of nepal-common (src/locator/al-locator.types.ts)\<close>

text \<open>
  The class \<open>AlLocatorMatrix\<close> keeps three string-keyed dictionaries (\<open>uriMap\<close>,
  \<open>nodes\<close>, \<open>_nodeMap\<close>), an ambient context and the acting node. Its descriptors are
  shared mutable objects: both indices hold references to the same descriptor, and
  \<open>getNodeByURI\<close> and \<open>resolveNodeURI\<close> write to descriptors in place. The embedding
  therefore uses an explicit store: a descriptor reference is an address (\<open>nat\<close>), the
  field \<open>heap\<close> of the instance maps addresses to descriptors, and the dictionaries hold
  addresses.
\<close>

subsection \<open>Values of the host language\<close>

text \<open>
  An optional string field (\<open>f?:string\<close>) is a \<open>string option\<close>; \<open>None\<close> is
  \<open>undefined\<close>. A condition \<open>if ( s )\<close> on such a value holds when the value is neither
  \<open>undefined\<close> nor the empty string.
\<close>

definition truthy :: "string option \<Rightarrow> bool" where
  "truthy s = (case s of None \<Rightarrow> False | Some v \<Rightarrow> v \<noteq> [])"

text \<open>Interpolation \<open>${s}\<close> in a template literal: \<open>undefined\<close> prints as its name.\<close>

definition tmpl :: "string option \<Rightarrow> string" where
  "tmpl s = (case s of None \<Rightarrow> ''undefined'' | Some v \<Rightarrow> v)"

text \<open>\<open>a || b\<close> on optional strings.\<close>

definition orElse :: "string option \<Rightarrow> string option \<Rightarrow> string option" where
  "orElse a b = (if truthy a then a else b)"

text \<open>
  A dictionary object \<open>{[key:string]: V}\<close> is an association list in insertion order,
  which is the order \<open>for ( let k in obj )\<close> enumerates its keys in (none of the keys
  built by this class is an array index). Assigning to an existing key keeps the key's
  position and replaces its value; assigning to a new key appends it.
\<close>

type_synonym 'v dict = "(string \<times> 'v) list"

definition hasOwnProperty :: "'v dict \<Rightarrow> string \<Rightarrow> bool" where
  "hasOwnProperty d k = (k \<in> fst ` set d)"

definition dict_get :: "'v dict \<Rightarrow> string \<Rightarrow> 'v option" where
  "dict_get d k = map_of d k"

fun dict_assign :: "string \<Rightarrow> 'v \<Rightarrow> 'v dict \<Rightarrow> 'v dict" where
  "dict_assign k v [] = []"
| "dict_assign k v ((k', v') # d) = (k', if k' = k then v else v') # dict_assign k v d"

definition dict_set :: "string \<Rightarrow> 'v \<Rightarrow> 'v dict \<Rightarrow> 'v dict" where
  "dict_set k v d = (if hasOwnProperty d k then dict_assign k v d else d @ [(k, v)])"

text \<open>A sequence of assignments to a dictionary.\<close>

definition dict_writes :: "(string \<times> 'v) list \<Rightarrow> 'v dict \<Rightarrow> 'v dict" where
  "dict_writes ws d = fold (\<lambda>(k, v). dict_set k v) ws d"

subsection \<open>Regular expressions built by \<open>escapeLocationPattern\<close>\<close>

text \<open>
  \<open>new RegExp( pattern )\<close> and \<open>matcher.test( s )\<close> belong to the host language. Their
  model covers the patterns \<open>escapeLocationPattern\<close> can emit: a sequence of atoms, each
  with an optional quantifier. An atom is an escaped punctuation character, the class
  \<open>[a-zA-Z0-9_]\<close>, the dot, one of the anchors, or a plain character. The characters
  \<open>*\<close>, \<open>+\<close> and \<open>?\<close> are quantifiers of the atom before them (a \<open>?\<close> after a quantifier
  makes it lazy, which does not change what \<open>test\<close> answers); where no atom precedes
  them, or the atom is an anchor or is quantified already, the constructor throws a
  \<open>SyntaxError\<close>. \<open>rx_parse\<close> answers \<open>None\<close> for that, and for a pattern outside of
  this fragment.
\<close>

datatype rx_atom = Lit char | AnyChar | WordClass | Bol | Eol

datatype rx_quant = Once | Opt | Star | Plus

type_synonym regex = "(rx_atom \<times> rx_quant) list"

definition escaped_chars :: "char list" where
  "escaped_chars = ''-/'' @ [CHR 0x5C] @ ''^$.()|[]{}''"

definition word_chars :: "char list" where
  "word_chars = ''abcdefghijklmnopqrstuvwxyzABCDEFGHIJKLMNOPQRSTUVWXYZ0123456789_''"

fun rx_atom_of :: "string \<Rightarrow> (rx_atom \<times> string) option" where
  "rx_atom_of [] = None"
| "rx_atom_of (c # cs) =
     (if c = CHR 0x5C then
        (case cs of [] \<Rightarrow> None
         | d # r \<Rightarrow> if d \<in> set escaped_chars then Some (Lit d, r) else None)
      else if c = CHR ''['' then
        (if take 11 cs = ''a-zA-Z0-9_]'' then Some (WordClass, drop 11 cs) else None)
      else if c = CHR ''.'' then Some (AnyChar, cs)
      else if c = CHR ''^'' then Some (Bol, cs)
      else if c = CHR ''$'' then Some (Eol, cs)
      else if c \<in> set ''*+?()|{}]'' then None
      else Some (Lit c, cs))"

definition rx_lazy :: "string \<Rightarrow> string" where
  "rx_lazy cs = (case cs of [] \<Rightarrow> [] | d # r \<Rightarrow> if d = CHR ''?'' then r else d # r)"

fun rx_quantifier :: "string \<Rightarrow> rx_quant \<times> string" where
  "rx_quantifier [] = (Once, [])"
| "rx_quantifier (c # cs) =
     (if c = CHR ''*'' then (Star, rx_lazy cs)
      else if c = CHR ''+'' then (Plus, rx_lazy cs)
      else if c = CHR ''?'' then (Opt, rx_lazy cs)
      else (Once, c # cs))"

function rx_parse :: "string \<Rightarrow> regex option" where
  "rx_parse s =
     (if s = [] then Some []
      else case rx_atom_of s of
        None \<Rightarrow> None
      | Some (a, r) \<Rightarrow>
          if a = Bol \<or> a = Eol then map_option ((#) (a, Once)) (rx_parse r)
          else map_option ((#) (a, fst (rx_quantifier r))) (rx_parse (snd (rx_quantifier r))))"
  by pat_completeness auto
termination
proof (relation "measure length")
  have atom_shorter: "length r < length s" if "rx_atom_of s = Some (a, r)" for s a r
    using that by (cases s) (auto split: if_splits list.splits)
  have lazy_length: "length (rx_lazy cs) \<le> length cs" for cs
    by (cases cs) (auto simp: rx_lazy_def)
  have quantifier_length: "length (snd (rx_quantifier s)) \<le> length s" for s
    using lazy_length by (cases s) (auto intro: le_SucI)
  show "wf (measure length)" by simp
  show "(y, s) \<in> measure length"
    if "rx_atom_of s = Some x2" and "(x, y) = x2" for s x2 x y
    using that atom_shorter [of s x y] by simp
  show "(snd (rx_quantifier y), s) \<in> measure length"
    if "rx_atom_of s = Some x2" and "(x, y) = x2" for s x2 x y
  proof -
    have "length y < length s"
      using that atom_shorter [of s x y] by simp
    with quantifier_length [of y] show ?thesis by simp
  qed
qed

declare rx_parse.simps [simp del]

text \<open>
  What one atom accepts. The dot accepts every character but a line terminator;
  an anchor consumes no character.
\<close>

fun rx_accepts :: "rx_atom \<Rightarrow> char \<Rightarrow> bool" where
  "rx_accepts (Lit d) c = (c = d)"
| "rx_accepts AnyChar c = (c \<noteq> CHR 0x0A \<and> c \<noteq> CHR 0x0D)"
| "rx_accepts WordClass c = (c \<in> set word_chars)"
| "rx_accepts Bol c = False"
| "rx_accepts Eol c = False"

text \<open>
  \<open>rx_match rx b s\<close>: some prefix of \<open>s\<close> matches \<open>rx\<close>, where \<open>b\<close> says that \<open>s\<close>
  starts at the beginning of the input. No flag is set on the expressions of this class,
  so \<open>^\<close> holds at the beginning of the input only and \<open>$\<close> at its end only.
\<close>

fun rx_match :: "regex \<Rightarrow> bool \<Rightarrow> string \<Rightarrow> bool" where
  "rx_match [] b s = True"
| "rx_match ((a, q) # r) b s =
     (if a = Bol then b \<and> rx_match r b s
      else if a = Eol then s = [] \<and> rx_match r b s
      else case q of
        Once \<Rightarrow> (case s of [] \<Rightarrow> False | c # cs \<Rightarrow> rx_accepts a c \<and> rx_match r False cs)
      | Opt \<Rightarrow> (case s of [] \<Rightarrow> False | c # cs \<Rightarrow> rx_accepts a c \<and> rx_match r False cs)
                 \<or> rx_match r b s
      | Star \<Rightarrow> rx_match r b s
                 \<or> (case s of [] \<Rightarrow> False
                     | c # cs \<Rightarrow> rx_accepts a c \<and> rx_match ((a, Star) # r) False cs)
      | Plus \<Rightarrow> (case s of [] \<Rightarrow> False
                  | c # cs \<Rightarrow> rx_accepts a c \<and> rx_match ((a, Star) # r) False cs))"

text \<open>\<open>matcher.test( s )\<close>: a match may start at any index of \<open>s\<close>.\<close>

definition rx_test :: "regex \<Rightarrow> string \<Rightarrow> bool" where
  "rx_test rx s = list_ex (\<lambda>i. rx_match rx (i = 0) (drop i s)) [0..<Suc (length s)]"

text \<open>A pattern text that does not begin with a quantifier.\<close>

definition starts_plain :: "string \<Rightarrow> bool" where
  "starts_plain s = (case s of [] \<Rightarrow> True | c # _ \<Rightarrow> c \<noteq> CHR ''*'' \<and> c \<noteq> CHR ''+'' \<and> c \<noteq> CHR ''?'')"

subsection \<open>Pattern and URL helpers\<close>

text \<open>
  \<open>uri.replace(/[-\/\\^$.()|[\]{}]/g, '\\$&')\<close> puts a backslash before every
  occurrence of one of the thirteen characters of the class.
\<close>

definition escape_regex_chars :: "string \<Rightarrow> string" where
  "escape_regex_chars uri =
     concat (map (\<lambda>c. if c \<in> set escaped_chars then [CHR 0x5C, c] else [c]) uri)"

text \<open>\<open>pattern.replace( /\*/, r )\<close>: the expression has no \<open>g\<close> flag.\<close>

fun replace_first_star :: "string \<Rightarrow> string \<Rightarrow> string" where
  "replace_first_star r [] = []"
| "replace_first_star r (c # cs) = (if c = CHR ''*'' then r @ cs else c # replace_first_star r cs)"

definition escapeLocationPattern :: "string \<Rightarrow> string" where
  "escapeLocationPattern uri =
     replace_first_star ''[a-zA-Z0-9_]+'' (''^'' @ escape_regex_chars uri) @ ''.*$''"

definition cut_at :: "char \<Rightarrow> string \<Rightarrow> string" where
  "cut_at c uri = (if c \<in> set uri then takeWhile (\<lambda>x. x \<noteq> c) uri else uri)"

definition getBaseUrl :: "string \<Rightarrow> string" where
  "getBaseUrl uri =
     (let uri1 = cut_at (CHR ''#'') uri;
          uri2 = cut_at (CHR ''?'') uri1
      in if length uri2 > 0 \<and> last uri2 = CHR ''/'' then butlast uri2 else uri2)"

subsection \<open>Data model\<close>

text \<open>
  \<open>AlLocationContext\<close> and \<open>AlLocationDescriptor\<close>. The descriptor's \<open>_fullURI\<close> is
  \<open>fullURI\<close> here; its fields \<open>uiEntryPoint\<close> and \<open>data\<close> (of type \<open>any\<close>) are never
  read by the class and are left out.
\<close>

record AlLocationContext =
  ctx_environment :: "string option"
  ctx_residency :: "string option"
  ctx_insightLocationId :: "string option"
  ctx_accessible :: "string list option"

record AlLocationDescriptor =
  locTypeId :: string
  parentId :: "string option"
  insightLocationId :: "string option"
  uri :: string
  residency :: "string option"
  environment :: "string option"
  aliases :: "string list option"
  productType :: "string option"
  aspect :: "string option"
  uiCaption :: "string option"
  fullURI :: "string option"

text \<open>The entries of the dictionary \<open>AlInsightLocations\<close>.\<close>

record InsightLocation =
  loc_residency :: string
  loc_residencyCaption :: string
  loc_alternatives :: "string list option"
  loc_logicalRegion :: string

definition AlInsightLocations :: "string \<Rightarrow> InsightLocation option" where
  "AlInsightLocations locationId =
     (if locationId = ''defender-us-denver'' then
        Some \<lparr>loc_residency = ''US'', loc_residencyCaption = ''UNITED STATES'',
              loc_alternatives = None, loc_logicalRegion = ''us-west-1''\<rparr>
      else if locationId = ''defender-us-ashburn'' then
        Some \<lparr>loc_residency = ''US'', loc_residencyCaption = ''UNITED STATES'',
              loc_alternatives = None, loc_logicalRegion = ''us-east-1''\<rparr>
      else if locationId = ''defender-uk-newport'' then
        Some \<lparr>loc_residency = ''EMEA'', loc_residencyCaption = ''UNITED KINGDOM'',
              loc_alternatives = None, loc_logicalRegion = ''uk-west-1''\<rparr>
      else if locationId = ''insight-us-virginia'' then
        Some \<lparr>loc_residency = ''US'', loc_residencyCaption = ''UNITED STATES'',
              loc_alternatives = Some [''defender-us-denver'', ''defender-us-ashburn''],
              loc_logicalRegion = ''us-east-1''\<rparr>
      else if locationId = ''insight-eu-ireland'' then
        Some \<lparr>loc_residency = ''EMEA'', loc_residencyCaption = ''UNITED KINGDOM'',
              loc_alternatives = Some [''defender-uk-newport''],
              loc_logicalRegion = ''uk-west-1''\<rparr>
      else None)"

text \<open>
  The instance. \<open>nodeMap\<close> is the source's \<open>_nodeMap\<close>; an entry of \<open>uriMap\<close> is the
  pair of the compiled matcher and the descriptor's address.
\<close>

record AlLocatorMatrix =
  heap :: "nat \<Rightarrow> AlLocationDescriptor"
  actingUri :: "string option"
  actor :: "nat option"
  uriMap :: "(regex \<times> nat) dict"
  nodes :: "nat dict"
  nodeMap :: "nat dict"
  "context" :: AlLocationContext

text \<open>The field initialisers of the class, over a store of descriptors.\<close>

definition initial :: "(nat \<Rightarrow> AlLocationDescriptor) \<Rightarrow> AlLocatorMatrix" where
  "initial h =
     \<lparr>heap = h, actingUri = None, actor = None, uriMap = [], nodes = [], nodeMap = [],
      context = \<lparr>ctx_environment = Some ''production'', ctx_residency = Some ''US'',
                 ctx_insightLocationId = None, ctx_accessible = None\<rparr>\<rparr>"

text \<open>
  The global \<open>window\<close>, where the runtime has one: its \<open>location.origin\<close> and
  \<open>location.pathname\<close>.
\<close>

record Location =
  origin :: string
  pathname :: string

text \<open>
  The expression both \<open>resolveURL\<close> and \<open>setActingUri\<close> fall back to:
  origin plus pathname when the pathname is longer than one character, and the fixed
  placeholder where \<open>typeof( window )\<close> is \<open>'undefined'\<close>.
\<close>

definition ambient_url :: "Location option \<Rightarrow> string" where
  "ambient_url window =
     (case window of
        Some l \<Rightarrow> origin l @ (if length (pathname l) > 1 then pathname l else [])
      | None \<Rightarrow> ''http://localhost:9999'')"

text \<open>
  The exceptions of the host language that the class can raise, and the outcome of a
  method that may raise one: the instance as it is when the exception leaves the
  method, or the method's result.
\<close>

datatype error = SyntaxError | TypeError

type_synonym 'a outcome = "(error \<times> AlLocatorMatrix) + 'a"

subsection \<open>The node index\<close>

definition key2 :: "string \<Rightarrow> string \<Rightarrow> string \<Rightarrow> string" where
  "key2 t e r = t @ ''-'' @ e @ ''-'' @ r"

definition key3 :: "string \<Rightarrow> string \<Rightarrow> string \<Rightarrow> string \<Rightarrow> string" where
  "key3 t e r d = t @ ''-'' @ e @ ''-'' @ r @ ''-'' @ d"

text \<open>
  The loop of \<open>getNode\<close> over \<open>accessible\<close>. It has no \<open>break\<close>: every id of the list is
  looked at, and a later hit replaces an earlier one.
\<close>

fun accessible_loop ::
  "nat dict \<Rightarrow> string \<Rightarrow> string option \<Rightarrow> string option \<Rightarrow> string option \<Rightarrow>
   string list \<Rightarrow> nat option \<Rightarrow> nat option" where
  "accessible_loop m t e r i [] node = node"
| "accessible_loop m t e r i (accessibleLocationId # rest) node =
     accessible_loop m t e r i rest
       (if Some accessibleLocationId \<noteq> i then
          (if hasOwnProperty m (key3 t (tmpl e) (tmpl r) accessibleLocationId)
           then dict_get m (key3 t (tmpl e) (tmpl r) accessibleLocationId)
           else node)
        else node)"

text \<open>
  \<open>context && context.f ? context.f : this.context.f\<close> for a string field, and for
  the list \<open>accessible\<close> (an array is truthy, also an empty one).
\<close>

definition pick ::
  "(AlLocationContext \<Rightarrow> string option) \<Rightarrow> AlLocationContext option \<Rightarrow>
   AlLocationContext \<Rightarrow> string option" where
  "pick f c amb = (case c of None \<Rightarrow> f amb | Some x \<Rightarrow> if truthy (f x) then f x else f amb)"

definition pick_accessible ::
  "AlLocationContext option \<Rightarrow> AlLocationContext \<Rightarrow> string list option" where
  "pick_accessible c amb =
     (case c of None \<Rightarrow> ctx_accessible amb
      | Some x \<Rightarrow> if ctx_accessible x \<noteq> None then ctx_accessible x else ctx_accessible amb)"

text \<open>The body of \<open>getNode\<close> between the memo's test and the memo's update.\<close>

definition lookupNode ::
  "nat dict \<Rightarrow> string \<Rightarrow> string option \<Rightarrow> string option \<Rightarrow> string option \<Rightarrow>
   string list option \<Rightarrow> nat option" where
  "lookupNode m t e r i acc =
     (let node = None;
          node = (if truthy i \<and> hasOwnProperty m (key3 t (tmpl e) (tmpl r) (tmpl i))
                  then dict_get m (key3 t (tmpl e) (tmpl r) (tmpl i)) else node);
          node = (if node = None \<and> acc \<noteq> None \<and> the acc \<noteq> []
                  then accessible_loop m t e r i (the acc) node else node);
          node = (if node = None \<and> truthy e \<and> truthy r
                     \<and> hasOwnProperty m (key2 t (tmpl e) (tmpl r))
                  then dict_get m (key2 t (tmpl e) (tmpl r)) else node);
          node = (if node = None \<and> truthy e \<and> hasOwnProperty m (key2 t (tmpl e) ''*'')
                  then dict_get m (key2 t (tmpl e) ''*'') else node);
          node = (if node = None \<and> hasOwnProperty m (key2 t ''*'' ''*'')
                  then dict_get m (key2 t ''*'' ''*'') else node)
      in node)"

text \<open>
  The memo \<open>this.nodes\<close> is a plain object, asked through its own \<open>hasOwnProperty\<close>
  and written with the type id as key. Once the type id \<open>hasOwnProperty\<close> is stored in
  it, that name denotes a descriptor and no longer the method, and the call
  \<open>this.nodes.hasOwnProperty( ... )\<close> at the head of \<open>getNode\<close> throws a \<open>TypeError\<close>.
  An assignment to the key \<open>__proto__\<close> sets the prototype of the object and adds no
  property. (The keys of \<open>_nodeMap\<close> contain a hyphen and the keys of \<open>uriMap\<close> begin
  with \<open>^\<close>, so neither name can be a key of these two.)
\<close>

definition memo_set :: "string \<Rightarrow> nat \<Rightarrow> nat dict \<Rightarrow> nat dict" where
  "memo_set k v d = (if k = ''__proto__'' then d else dict_set k v d)"

definition getNode ::
  "string \<Rightarrow> AlLocationContext option \<Rightarrow> AlLocatorMatrix \<Rightarrow>
   (nat option \<times> AlLocatorMatrix) outcome" where
  "getNode t c this =
     (if hasOwnProperty (nodes this) ''hasOwnProperty'' then Inl (TypeError, this)
      else if hasOwnProperty (nodes this) t \<and> c = None then Inr (dict_get (nodes this) t, this)
      else
        let node = lookupNode (nodeMap this) t
                     (pick ctx_environment c (context this))
                     (pick ctx_residency c (context this))
                     (pick ctx_insightLocationId c (context this))
                     (pick_accessible c (context this))
        in Inr (node, if node \<noteq> None \<and> c = None
                      then this\<lparr>nodes := memo_set t (the node) (nodes this)\<rparr> else this))"

subsection \<open>Loading descriptors\<close>

text \<open>
  \<open>uriMap[pattern] = { matcher: new RegExp( pattern ), location: node }\<close>; the
  constructor of the expression may throw, and then nothing is assigned. The exception
  leaves \<open>addUriMapping\<close>, \<open>saveNode\<close> and \<open>setLocations\<close> with everything in place
  that was written before it.
\<close>

definition add_pattern ::
  "nat \<Rightarrow> string \<Rightarrow> (regex \<times> nat) dict \<Rightarrow> (error \<times> (regex \<times> nat) dict) + (regex \<times> nat) dict" where
  "add_pattern node u um =
     (case rx_parse (escapeLocationPattern u) of
        None \<Rightarrow> Inl (SyntaxError, um)
      | Some rx \<Rightarrow> Inr (dict_set (escapeLocationPattern u) (rx, node) um))"

fun add_patterns ::
  "nat \<Rightarrow> string list \<Rightarrow> (regex \<times> nat) dict \<Rightarrow>
   (error \<times> (regex \<times> nat) dict) + (regex \<times> nat) dict" where
  "add_patterns node [] um = Inr um"
| "add_patterns node (u # us) um =
     (case add_pattern node u um of Inl e \<Rightarrow> Inl e | Inr um' \<Rightarrow> add_patterns node us um')"

definition addUriMapping :: "nat \<Rightarrow> AlLocatorMatrix \<Rightarrow> AlLocatorMatrix outcome" where
  "addUriMapping node this =
     (case (if length (uri (heap this node)) > 0
            then add_pattern node (uri (heap this node)) (uriMap this)
            else Inr (uriMap this)) of
        Inl (e, um) \<Rightarrow> Inl (e, this\<lparr>uriMap := um\<rparr>)
      | Inr um \<Rightarrow>
          (case (case aliases (heap this node) of
                   None \<Rightarrow> Inr um
                 | Some as \<Rightarrow> add_patterns node as um) of
             Inl (e, um') \<Rightarrow> Inl (e, this\<lparr>uriMap := um'\<rparr>)
           | Inr um' \<Rightarrow> Inr (this\<lparr>uriMap := um'\<rparr>)))"

definition saveNode :: "nat \<Rightarrow> AlLocatorMatrix \<Rightarrow> AlLocatorMatrix outcome" where
  "saveNode node this =
     (let n = heap this node;
          m = nodeMap this;
          m = (if truthy (environment n) \<and> truthy (residency n) then
                 (let m = (if truthy (insightLocationId n)
                           then dict_set (key3 (locTypeId n) (tmpl (environment n))
                                            (tmpl (residency n)) (tmpl (insightLocationId n)))
                                  node m
                           else m)
                  in dict_set (key2 (locTypeId n) (tmpl (environment n)) (tmpl (residency n)))
                       node m)
               else m);
          m = (if truthy (environment n)
               then dict_set (key2 (locTypeId n) (tmpl (environment n)) ''*'') node m else m);
          m = dict_set (key2 (locTypeId n) ''*'' ''*'') node m
      in addUriMapping node (this\<lparr>nodeMap := m\<rparr>))"

text \<open>
  What loading writes: the keys \<open>saveNode\<close> assigns for a descriptor, in the order of
  the assignments, and the texts \<open>addUriMapping\<close> compiles for it.
\<close>

definition saveNode_keys :: "AlLocationDescriptor \<Rightarrow> string list" where
  "saveNode_keys n =
     (if truthy (environment n) \<and> truthy (residency n) then
        (if truthy (insightLocationId n)
         then [key3 (locTypeId n) (tmpl (environment n)) (tmpl (residency n))
                 (tmpl (insightLocationId n))]
         else [])
        @ [key2 (locTypeId n) (tmpl (environment n)) (tmpl (residency n))]
      else [])
     @ (if truthy (environment n) then [key2 (locTypeId n) (tmpl (environment n)) ''*''] else [])
     @ [key2 (locTypeId n) ''*'' ''*'']"

definition uri_patterns :: "AlLocationDescriptor \<Rightarrow> string list" where
  "uri_patterns n =
     (if length (uri n) > 0 then [uri n] else [])
     @ (case aliases n of None \<Rightarrow> [] | Some as \<Rightarrow> as)"

definition node_writes :: "(nat \<Rightarrow> AlLocationDescriptor) \<Rightarrow> nat list \<Rightarrow> (string \<times> nat) list" where
  "node_writes h ns = concat (map (\<lambda>n. map (\<lambda>k. (k, n)) (saveNode_keys (h n))) ns)"

definition uri_writes ::
  "(nat \<Rightarrow> AlLocationDescriptor) \<Rightarrow> nat list \<Rightarrow> (string \<times> regex \<times> nat) list" where
  "uri_writes h ns =
     concat (map (\<lambda>n. map (\<lambda>u. (escapeLocationPattern u,
                                  (the (rx_parse (escapeLocationPattern u)), n)))
                       (uri_patterns (h n))) ns)"

definition patterns_compile :: "(nat \<Rightarrow> AlLocationDescriptor) \<Rightarrow> nat list \<Rightarrow> bool" where
  "patterns_compile h ns =
     list_all (\<lambda>n. list_all (\<lambda>u. rx_parse (escapeLocationPattern u) \<noteq> None) (uri_patterns (h n)))
       ns"

fun setLocations :: "nat list \<Rightarrow> AlLocatorMatrix \<Rightarrow> AlLocatorMatrix outcome" where
  "setLocations [] this = Inr this"
| "setLocations (node # rest) this =
     (case saveNode node this of Inl e \<Rightarrow> Inl e | Inr this' \<Rightarrow> setLocations rest this')"

subsection \<open>Reverse lookup\<close>

text \<open>
  The loop of \<open>getNodeByURI\<close> over the entries of \<open>uriMap\<close>: the first entry whose
  matcher accepts the target decides, and its descriptor is corrected in place when the
  base URL of the target is not its \<open>uri\<close>.
\<close>

fun getNodeByURI_loop ::
  "(regex \<times> nat) dict \<Rightarrow> string \<Rightarrow> AlLocatorMatrix \<Rightarrow> nat option \<times> AlLocatorMatrix" where
  "getNodeByURI_loop [] targetURI this = (None, this)"
| "getNodeByURI_loop ((k, (matcher, location)) # rest) targetURI this =
     (if rx_test matcher targetURI then
        (let baseUrl = getBaseUrl targetURI in
         if baseUrl \<noteq> uri (heap this location)
         then (Some location,
               this\<lparr>heap := (heap this)
                  (location := (heap this location)\<lparr>uri := baseUrl, fullURI := Some baseUrl\<rparr>)\<rparr>)
         else (Some location, this))
      else getNodeByURI_loop rest targetURI this)"

definition getNodeByURI :: "string \<Rightarrow> AlLocatorMatrix \<Rightarrow> nat option \<times> AlLocatorMatrix" where
  "getNodeByURI targetURI this = getNodeByURI_loop (uriMap this) targetURI this"


subsection \<open>Search\<close>

text \<open>
  \<open>search\<close> walks the keys of \<open>_nodeMap\<close> and collects the value of each key whose
  descriptor passes the filter; the result is a list of references.
\<close>

definition search :: "(AlLocationDescriptor \<Rightarrow> bool) \<Rightarrow> AlLocatorMatrix \<Rightarrow> nat list" where
  "search p this = map snd (filter (\<lambda>(k, a). p (heap this a)) (nodeMap this))"

definition findOne :: "(AlLocationDescriptor \<Rightarrow> bool) \<Rightarrow> AlLocatorMatrix \<Rightarrow> nat option" where
  "findOne p this = (case search p this of [] \<Rightarrow> None | a # _ \<Rightarrow> Some a)"

subsection \<open>The ambient context\<close>

text \<open>The loop of \<open>normalizeContext\<close> over the alternatives, with its \<open>break\<close>.\<close>

fun select_alternative :: "string list \<Rightarrow> string list \<Rightarrow> string option" where
  "select_alternative [] acc = None"
| "select_alternative (candidateLocationId # rest) acc =
     (if candidateLocationId \<in> set acc then Some candidateLocationId
      else select_alternative rest acc)"

text \<open>
  \<open>normalizeContext\<close>. \<open>insightLocation\<close> is the table's entry of the id the context
  holds on entry; the residency test at the end reads that same entry. An element read
  beyond the end of an array (\<open>alternatives[0]\<close> of an empty list) is \<open>undefined\<close>.
\<close>

definition normalizeContext :: "AlLocationContext \<Rightarrow> AlLocationContext" where
  "normalizeContext c =
     (if \<not> truthy (ctx_insightLocationId c) \<or> ctx_accessible c = None then c
      else case AlInsightLocations (tmpl (ctx_insightLocationId c)) of
        None \<Rightarrow> c
      | Some insightLocation \<Rightarrow>
          (let c1 = (case loc_alternatives insightLocation of
                       None \<Rightarrow> c
                     | Some alternatives \<Rightarrow>
                         (let selected = select_alternative alternatives (the (ctx_accessible c));
                              selected = (if selected = None
                                          then (case alternatives of [] \<Rightarrow> None | a # _ \<Rightarrow> Some a)
                                          else selected)
                          in c\<lparr>ctx_insightLocationId := selected\<rparr>))
           in if loc_residency insightLocation \<noteq> []
                 \<and> ctx_residency c1 \<noteq> Some (loc_residency insightLocation)
              then c1\<lparr>ctx_residency := Some (loc_residency insightLocation)\<rparr>
              else c1))"

text \<open>
  The assignments of \<open>setContext\<close> to the fields of \<open>this.context\<close>, one definition
  for each, in the order of the source. The data-center id and the accessible list are
  merged first.
\<close>

definition merge_insightLocationId ::
  "AlLocationContext option \<Rightarrow> AlLocationContext \<Rightarrow> AlLocationContext" where
  "merge_insightLocationId c cx = cx\<lparr>ctx_insightLocationId := pick ctx_insightLocationId c cx\<rparr>"

definition merge_accessible ::
  "AlLocationContext option \<Rightarrow> AlLocationContext \<Rightarrow> AlLocationContext" where
  "merge_accessible c cx =
     cx\<lparr>ctx_accessible :=
          (case c of None \<Rightarrow> ctx_accessible cx
           | Some x \<Rightarrow> if ctx_accessible x \<noteq> None \<and> the (ctx_accessible x) \<noteq> []
                       then ctx_accessible x else ctx_accessible cx)\<rparr>"

text \<open>
  Then, with a data-center id in the context, the residency is taken from the first
  descriptor of the node map that is bound to that id, if there is one and it has a
  residency.
\<close>

definition bound_residency :: "AlLocatorMatrix \<Rightarrow> AlLocationContext \<Rightarrow> AlLocationContext" where
  "bound_residency this cx =
     (if truthy (ctx_insightLocationId cx) then
        (case findOne (\<lambda>n. insightLocationId n = ctx_insightLocationId cx) this of
           None \<Rightarrow> cx
         | Some locationNode \<Rightarrow>
             if truthy (residency (heap this locationNode))
             then cx\<lparr>ctx_residency := residency (heap this locationNode)\<rparr> else cx)
      else cx)"

definition merge_environment ::
  "AlLocationContext option \<Rightarrow> AlLocationContext \<Rightarrow> AlLocationContext" where
  "merge_environment c cx = cx\<lparr>ctx_environment := pick ctx_environment c cx\<rparr>"

definition merge_residency ::
  "AlLocationContext option \<Rightarrow> AlLocationContext \<Rightarrow> AlLocationContext" where
  "merge_residency c cx = cx\<lparr>ctx_residency := pick ctx_residency c cx\<rparr>"

text \<open>\<open>setContext\<close>: flush the memo, run the five assignments, normalize.\<close>

definition setContext :: "AlLocationContext option \<Rightarrow> AlLocatorMatrix \<Rightarrow> AlLocatorMatrix" where
  "setContext c this =
     (let this = this\<lparr>nodes := []\<rparr>;
          cx = merge_insightLocationId c (context this);
          cx = merge_accessible c cx;
          cx = bound_residency this cx;
          cx = merge_environment c cx;
          cx = merge_residency c cx
      in this\<lparr>context := normalizeContext cx\<rparr>)"

definition getContext :: "AlLocatorMatrix \<Rightarrow> AlLocationContext" where
  "getContext this = context this"

subsection \<open>The acting node\<close>

text \<open>
  The argument of \<open>setActingUri\<close>: a string, a boolean, or \<open>null\<close>. The method tests
  \<open>actingUri === null\<close> first and \<open>typeof( actingUri ) === 'boolean'\<close> next; the
  value of a boolean is not looked at.
\<close>

datatype acting = Null | Bool bool | Str string

definition setActingUri :: "acting \<Rightarrow> Location option \<Rightarrow> AlLocatorMatrix \<Rightarrow> AlLocatorMatrix" where
  "setActingUri a window this =
     (case a of
        Null \<Rightarrow> this\<lparr>actingUri := None, actor := None\<rparr>
      | _ \<Rightarrow>
          (let u = (case a of Bool b \<Rightarrow> ambient_url window | Str s \<Rightarrow> s | Null \<Rightarrow> [])
           in if u \<noteq> [] then
                (let this = this\<lparr>actingUri := Some u\<rparr>;
                     (found, this) = getNodeByURI u this;
                     this = this\<lparr>actor := found\<rparr>
                 in case found of
                      None \<Rightarrow> this
                    | Some n \<Rightarrow>
                        setContext
                          (Some \<lparr>ctx_environment =
                                   orElse (environment (heap this n)) (ctx_environment (context this)),
                                 ctx_residency =
                                   orElse (residency (heap this n)) (ctx_residency (context this)),
                                 ctx_insightLocationId = None, ctx_accessible = None\<rparr>)
                          this)
              else this))"

subsection \<open>Composing URLs\<close>

text \<open>
  The second half of \<open>resolveNodeURI\<close>, after the parent's URL (or the empty string) is
  in \<open>uri0\<close>: append the node's own \<open>uri\<close>, prefix \<open>https://\<close> to a parentless node
  whose URL does not start with the four characters \<open>http\<close>, and store the result in
  the node.
\<close>

definition compose_uri :: "nat \<Rightarrow> string \<Rightarrow> AlLocatorMatrix \<Rightarrow> string \<times> AlLocatorMatrix" where
  "compose_uri node uri0 this =
     (let n = heap this node;
          u = (if uri n \<noteq> [] then
                 (let u = uri0 @ uri n in
                  if \<not> truthy (parentId n) \<and> take 4 u \<noteq> ''http'' then ''https://'' @ u else u)
               else uri0)
      in (u, this\<lparr>heap := (heap this)(node := n\<lparr>fullURI := Some u\<rparr>)\<rparr>))"

text \<open>
  \<open>resolveNodeURI\<close> calls itself on the parent; nothing bounds the depth, and on a cycle
  of parents the recursion has no end (the runtime ends it with a \<open>RangeError\<close> when
  its stack is used up). \<open>None\<close> is that outcome.
\<close>

partial_function (option) resolveNodeURI ::
  "nat \<Rightarrow> AlLocationContext option \<Rightarrow> AlLocatorMatrix \<Rightarrow>
   (string \<times> AlLocatorMatrix) outcome option" where
  "resolveNodeURI node c this =
     (if truthy (fullURI (heap this node)) then Some (Inr (tmpl (fullURI (heap this node)), this))
      else
        Option.bind
          (if truthy (parentId (heap this node)) then
             (case getNode (tmpl (parentId (heap this node))) c this of
                Inl e \<Rightarrow> Some (Inl e)
              | Inr (None, this1) \<Rightarrow> Some (Inr ([], this1))
              | Inr (Some parentNode, this1) \<Rightarrow> resolveNodeURI parentNode c this1)
           else Some (Inr ([], this)))
          (\<lambda>r. case r of
                 Inl e \<Rightarrow> Some (Inl e)
               | Inr (uri0, this2) \<Rightarrow> Some (Inr (compose_uri node uri0 this2))))"

text \<open>
  \<open>resolves_within k node c this\<close>: the chain of parents that \<open>resolveNodeURI\<close> walks
  from \<open>node\<close> ends after at most \<open>k\<close> steps, at a descriptor with \<open>_fullURI\<close> set, at
  a descriptor without parent, or at a parent id that \<open>getNode\<close> does not find, and no
  \<open>getNode\<close> on the way throws.
\<close>

primrec resolves_within ::
  "nat \<Rightarrow> nat \<Rightarrow> AlLocationContext option \<Rightarrow> AlLocatorMatrix \<Rightarrow> bool" where
  "resolves_within 0 node c this =
     (truthy (fullURI (heap this node)) \<or> \<not> truthy (parentId (heap this node))
      \<or> (case getNode (tmpl (parentId (heap this node))) c this of
            Inl e \<Rightarrow> False
          | Inr (None, this1) \<Rightarrow> True
          | Inr (Some parentNode, this1) \<Rightarrow> False))"
| "resolves_within (Suc k) node c this =
     (truthy (fullURI (heap this node)) \<or> \<not> truthy (parentId (heap this node))
      \<or> (case getNode (tmpl (parentId (heap this node))) c this of
            Inl e \<Rightarrow> False
          | Inr (None, this1) \<Rightarrow> True
          | Inr (Some parentNode, this1) \<Rightarrow> resolves_within k parentNode c this1))"

text \<open>\<open>resolveURL\<close>; \<open>if ( path )\<close> appends a path that is neither absent nor empty.\<close>

definition resolveURL ::
  "string \<Rightarrow> string option \<Rightarrow> AlLocationContext option \<Rightarrow> Location option \<Rightarrow>
   AlLocatorMatrix \<Rightarrow> (string \<times> AlLocatorMatrix) outcome option" where
  "resolveURL t path c window this =
     (case getNode t c this of
        Inl e \<Rightarrow> Some (Inl e)
      | Inr (Some loc, this1) \<Rightarrow>
          Option.bind (resolveNodeURI loc None this1)
            (\<lambda>r. case r of
                   Inl e \<Rightarrow> Some (Inl e)
                 | Inr (url, this2) \<Rightarrow>
                     Some (Inr (if truthy path then url @ tmpl path else url, this2)))
      | Inr (None, this1) \<Rightarrow>
          Some (Inr (if truthy path then ambient_url window @ tmpl path else ambient_url window,
                     this1)))"

text \<open>The constructor, with its defaults: no nodes, \<open>actingUri = true\<close>, no context.\<close>

definition construct ::
  "(nat \<Rightarrow> AlLocationDescriptor) \<Rightarrow> nat list \<Rightarrow> acting \<Rightarrow> AlLocationContext option \<Rightarrow>
   Location option \<Rightarrow> AlLocatorMatrix outcome" where
  "construct h ns a c window =
     (let this = initial h;
          this = (case c of None \<Rightarrow> this | Some x \<Rightarrow> setContext (Some x) this)
      in case (if ns \<noteq> [] then setLocations ns this else Inr this) of
           Inl e \<Rightarrow> Inl e
         | Inr this \<Rightarrow>
             Inr (case a of
                    Null \<Rightarrow> this
                  | Bool b \<Rightarrow> setActingUri a window this
                  | Str s \<Rightarrow> if s \<noteq> [] then setActingUri a window this else this))"

subsection \<open>Catalogs used in the examples\<close>

definition descriptor :: "string \<Rightarrow> string \<Rightarrow> AlLocationDescriptor" where
  "descriptor t u =
     \<lparr>locTypeId = t, parentId = None, insightLocationId = None, uri = u, residency = None,
      environment = None, aliases = None, productType = None, aspect = None,
      uiCaption = None, fullURI = None\<rparr>"

text \<open>A store that holds the descriptors of a list at the addresses \<open>0, 1, ...\<close>.\<close>

definition store :: "AlLocationDescriptor list \<Rightarrow> nat \<Rightarrow> AlLocationDescriptor" where
  "store ds a = (if a < length ds then ds ! a else descriptor [] [])"

definition partial_context :: AlLocationContext where
  "partial_context =
     \<lparr>ctx_environment = None, ctx_residency = None, ctx_insightLocationId = None,
      ctx_accessible = None\<rparr>"

text \<open>
  \<open>AlLocation.uiNode\<close>; \<open>devPort\<close> is the decimal numeral the template literal prints
  for the port number.
\<close>

definition uiNode :: "string \<Rightarrow> string \<Rightarrow> string \<Rightarrow> AlLocationDescriptor list" where
  "uiNode t appCode devPort =
     [(descriptor t (''https://console.'' @ appCode @ ''.alertlogic.com''))
        \<lparr>environment := Some ''production'', residency := Some ''US''\<rparr>,
      (descriptor t (''https://console.'' @ appCode @ ''.alertlogic.co.uk''))
        \<lparr>environment := Some ''production'', residency := Some ''EMEA''\<rparr>,
      (descriptor t (''https://console.'' @ appCode @ ''.product.dev.alertlogic.com''))
        \<lparr>environment := Some ''integration'',
         aliases := Some
           [''https://'' @ appCode @ ''.ui-dev.product.dev.alertlogic.com'',
            ''https://'' @ appCode @ ''-*.ui-dev.product.dev.alertlogic.com'',
            ''https://'' @ appCode @ ''-*-*.ui-dev.product.dev.alertlogic.com'',
            ''https://'' @ appCode @ ''-*-*-*.ui-dev.product.dev.alertlogic.com'',
            ''https://*.o3-'' @ appCode @ ''.product.dev.alertlogic.com'']\<rparr>,
      (descriptor t (''http://localhost:'' @ devPort))
        \<lparr>environment := Some ''development''\<rparr>]"

text \<open>Two deployments of one type in one environment and residency, in two data centers.\<close>

definition two_centers :: "AlLocationDescriptor list" where
  "two_centers =
     [(descriptor ''t'' ''https://a.example.com'')
        \<lparr>environment := Some ''production'', residency := Some ''US'',
         insightLocationId := Some ''a''\<rparr>,
      (descriptor ''t'' ''https://b.example.com'')
        \<lparr>environment := Some ''production'', residency := Some ''US'',
         insightLocationId := Some ''b''\<rparr>]"

text \<open>An API deployment bound to the data center \<open>defender-uk-newport\<close>.\<close>

definition newport_api :: "AlLocationDescriptor list" where
  "newport_api =
     [(descriptor ''insight:api'' ''https://api.cloudinsight.alertlogic.co.uk'')
        \<lparr>environment := Some ''production'', residency := Some ''EMEA'',
         insightLocationId := Some ''defender-uk-newport''\<rparr>]"

text \<open>A descriptor that names its own type as its parent.\<close>

definition self_parent :: "AlLocationDescriptor list" where
  "self_parent = [(descriptor ''a'' ''/x'')\<lparr>parentId := Some ''a''\<rparr>]"

text \<open>The catalog of the scenario: the global API in production, residency US.\<close>

definition global_api :: "AlLocationDescriptor list" where
  "global_api =
     [(descriptor ''global:api'' ''https://api.global.alertlogic.com'')
        \<lparr>environment := Some ''production'', residency := Some ''US''\<rparr>]"

text \<open>
  A parent, a child whose \<open>uri\<close> is a path under the parent, and two parentless
  descriptors whose \<open>uri\<close> has no protocol.
\<close>

definition family :: "AlLocationDescriptor list" where
  "family =
     [descriptor ''p'' ''https://p.example.com'',
      (descriptor ''c'' ''/child'')\<lparr>parentId := Some ''p''\<rparr>,
      descriptor ''auth0'' ''bare.example.com'',
      descriptor ''httpbin'' ''httpbin.org'']"

text \<open>Two location types served from one host.\<close>

definition shared_host :: "AlLocationDescriptor list" where
  "shared_host =
     [descriptor ''cd17:overview'' ''https://x.example.com'',
      descriptor ''cd17:incidents'' ''https://x.example.com'']"

text \<open>A location type whose id is the name of a method of every object.\<close>

definition reserved_type :: "AlLocationDescriptor list" where
  "reserved_type = [descriptor ''hasOwnProperty'' ''https://h.example.com'']"

text \<open>A browser location with a path.\<close>

definition dashboard_window :: Location where
  "dashboard_window = \<lparr>origin = ''https://console.example.com'', pathname = ''/dashboard''\<rparr>"

text \<open>
  A catalog whose second descriptor has an alias that does not compile: the second
  \<open>*\<close> of the alias is left as a quantifier behind the \<open>+\<close> of the first.
\<close>

definition unparsable_alias :: "AlLocationDescriptor list" where
  "unparsable_alias =
     [descriptor ''ok'' ''https://ok.example.com'',
      (descriptor ''bad'' ''https://bad.example.com'')
        \<lparr>aliases := Some [''https://**.bad.example.com'']\<rparr>,
      descriptor ''late'' ''https://late.example.com'']"

section \<open>Properties\<close>

subsection \<open>Fields after the assignments of \<open>setContext\<close>\<close>

lemma merge_fields [simp]:
  "ctx_insightLocationId (merge_insightLocationId c cx) = pick ctx_insightLocationId c cx"
  "ctx_accessible (merge_insightLocationId c cx) = ctx_accessible cx"
  "ctx_environment (merge_insightLocationId c cx) = ctx_environment cx"
  "ctx_residency (merge_insightLocationId c cx) = ctx_residency cx"
  "ctx_insightLocationId (merge_accessible c cx) = ctx_insightLocationId cx"
  "ctx_environment (merge_accessible c cx) = ctx_environment cx"
  "ctx_residency (merge_accessible c cx) = ctx_residency cx"
  "ctx_insightLocationId (merge_environment c cx) = ctx_insightLocationId cx"
  "ctx_accessible (merge_environment c cx) = ctx_accessible cx"
  "ctx_environment (merge_environment c cx) = pick ctx_environment c cx"
  "ctx_residency (merge_environment c cx) = ctx_residency cx"
  "ctx_insightLocationId (merge_residency c cx) = ctx_insightLocationId cx"
  "ctx_accessible (merge_residency c cx) = ctx_accessible cx"
  "ctx_environment (merge_residency c cx) = ctx_environment cx"
  "ctx_residency (merge_residency c cx) = pick ctx_residency c cx"
  by (simp_all add: merge_insightLocationId_def merge_accessible_def merge_environment_def
        merge_residency_def)

lemma bound_residency_fields [simp]:
  "ctx_insightLocationId (bound_residency this cx) = ctx_insightLocationId cx"
  "ctx_accessible (bound_residency this cx) = ctx_accessible cx"
  "ctx_environment (bound_residency this cx) = ctx_environment cx"
  by (simp_all add: bound_residency_def split: option.splits)

lemma bound_residency_no_id:
  "\<not> truthy (ctx_insightLocationId cx) \<Longrightarrow> bound_residency this cx = cx"
  by (simp add: bound_residency_def)

lemma normalizeContext_fields [simp]:
  "ctx_environment (normalizeContext cx) = ctx_environment cx"
  "ctx_accessible (normalizeContext cx) = ctx_accessible cx"
  by (simp_all add: normalizeContext_def Let_def split: option.splits)

lemma normalizeContext_no_id:
  "\<not> truthy (ctx_insightLocationId cx) \<or> ctx_accessible cx = None \<Longrightarrow> normalizeContext cx = cx"
  by (auto simp: normalizeContext_def)

lemma AlInsightLocations_virginia:
  "AlInsightLocations ''insight-us-virginia''
     = Some \<lparr>loc_residency = ''US'', loc_residencyCaption = ''UNITED STATES'',
             loc_alternatives = Some [''defender-us-denver'', ''defender-us-ashburn''],
             loc_logicalRegion = ''us-east-1''\<rparr>"
  by (simp add: AlInsightLocations_def)

lemma normalizeContext_virginia_ashburn:
  assumes "ctx_insightLocationId cx = Some ''insight-us-virginia''"
      and "ctx_accessible cx = Some [''defender-us-ashburn'']"
  shows "ctx_insightLocationId (normalizeContext cx) = Some ''defender-us-ashburn''"
    and "ctx_residency (normalizeContext cx) = Some ''US''"
  using assms
  by (simp_all add: normalizeContext_def truthy_def tmpl_def AlInsightLocations_virginia Let_def)

lemma setContext_fields:
  "nodes (setContext c this) = []"
  "heap (setContext c this) = heap this"
  "nodeMap (setContext c this) = nodeMap this"
  "uriMap (setContext c this) = uriMap this"
  "actor (setContext c this) = actor this"
  "actingUri (setContext c this) = actingUri this"
  "context (setContext c this) =
     normalizeContext (merge_residency c (merge_environment c
       (bound_residency (this\<lparr>nodes := []\<rparr>)
          (merge_accessible c (merge_insightLocationId c (context this))))))"
  by (simp_all add: setContext_def Let_def)

text \<open>What the table declares, entry by entry.\<close>

lemma AlInsightLocations_cases:
  assumes "AlInsightLocations i = Some e"
  obtains "i = ''defender-us-denver''" "loc_residency e = ''US''" "loc_alternatives e = None"
  | "i = ''defender-us-ashburn''" "loc_residency e = ''US''" "loc_alternatives e = None"
  | "i = ''defender-uk-newport''" "loc_residency e = ''EMEA''" "loc_alternatives e = None"
  | "i = ''insight-us-virginia''" "loc_residency e = ''US''"
    "loc_alternatives e = Some [''defender-us-denver'', ''defender-us-ashburn'']"
  | "i = ''insight-eu-ireland''" "loc_residency e = ''EMEA''"
    "loc_alternatives e = Some [''defender-uk-newport'']"
  using assms by (auto simp: AlInsightLocations_def split: if_splits)

subsection \<open>Dictionaries\<close>

lemma map_fst_dict_assign: "map fst (dict_assign k v d) = map fst d"
  by (induction d) auto

lemma dict_assign_other:
  "k' \<noteq> k \<Longrightarrow> (k', v') \<in> set (dict_assign k v d) \<longleftrightarrow> (k', v') \<in> set d"
  by (induction d) (auto split: if_splits)

lemma dict_assign_same: "(k, v') \<in> set (dict_assign k v d) \<Longrightarrow> v' = v"
  by (induction d) (auto split: if_splits)

lemma dict_assign_map: "dict_assign k v d = map (\<lambda>(a, b). (a, if a = k then v else b)) d"
  by (induction d) auto

lemma map_fst_dict_set:
  "map fst (dict_set k v d) = (if k \<in> fst ` set d then map fst d else map fst d @ [k])"
  by (simp add: dict_set_def hasOwnProperty_def map_fst_dict_assign)

lemma keys_dict_set: "fst ` set (dict_set k v d) = insert k (fst ` set d)"
proof -
  have "fst ` set (dict_set k v d) = set (map fst (dict_set k v d))"
    by simp
  also have "\<dots> = insert k (fst ` set d)"
    unfolding map_fst_dict_set by auto
  finally show ?thesis .
qed

lemma dict_set_present: "k \<in> fst ` set d \<Longrightarrow> dict_set k v d = dict_assign k v d"
  by (simp add: dict_set_def hasOwnProperty_def)

lemma dict_set_other: "k' \<noteq> k \<Longrightarrow> (k', v') \<in> set (dict_set k v d) \<longleftrightarrow> (k', v') \<in> set d"
  by (simp add: dict_set_def dict_assign_other)

lemma dict_set_same:
  assumes "(k, v') \<in> set (dict_set k v d)"
  shows "v' = v"
proof (cases "hasOwnProperty d k")
  case True
  with assms show ?thesis
    by (simp add: dict_set_def dict_assign_same)
next
  case False
  then have "(k, v') \<notin> set d"
    unfolding hasOwnProperty_def by (metis fst_conv image_eqI)
  with assms False show ?thesis
    by (simp add: dict_set_def)
qed

lemma dict_writes_Nil [simp]: "dict_writes [] d = d"
  by (simp add: dict_writes_def)

lemma dict_writes_Cons [simp]: "dict_writes ((k, v) # ws) d = dict_writes ws (dict_set k v d)"
  by (simp add: dict_writes_def)

lemma dict_writes_append [simp]: "dict_writes (ws @ ws') d = dict_writes ws' (dict_writes ws d)"
  by (simp add: dict_writes_def)

lemma keys_dict_writes: "fst ` set (dict_writes ws d) = fst ` set ws \<union> fst ` set d"
proof (induction ws arbitrary: d)
  case Nil
  then show ?case by simp
next
  case (Cons w ws)
  then show ?case
    by (cases w) (simp add: keys_dict_set)
qed

lemma dict_writes_untouched:
  "k \<notin> fst ` set ws \<Longrightarrow> (k, v) \<in> set (dict_writes ws d) \<longleftrightarrow> (k, v) \<in> set d"
proof (induction ws arbitrary: d)
  case Nil
  then show ?case by simp
next
  case (Cons w ws)
  then show ?case
    by (cases w) (simp add: dict_set_other)
qed

lemma dict_writes_last:
  "(k, v) \<in> set (dict_writes ws d) \<Longrightarrow> map_of (rev ws) k = Some v' \<Longrightarrow> v = v'"
proof (induction ws arbitrary: d)
  case Nil
  then show ?case by simp
next
  case (Cons w ws)
  obtain k0 v0 where w: "w = (k0, v0)"
    by (cases w)
  show ?case
  proof (cases "map_of (rev ws) k")
    case None
    then have nk: "k \<notin> fst ` set ws"
      by (simp add: map_of_eq_None_iff)
    from Cons.prems(2) None w have "k = k0" "v' = v0"
      by (auto simp: map_add_def split: if_splits)
    moreover from Cons.prems(1) nk w have "(k, v) \<in> set (dict_set k0 v0 d)"
      by (simp add: dict_writes_untouched)
    ultimately show ?thesis
      using dict_set_same by fastforce
  next
    case (Some x)
    with Cons.prems(2) w have "map_of (rev ws) k = Some v'"
      by (simp add: map_add_def)
    with Cons.IH [of "dict_set k0 v0 d"] Cons.prems(1) w show ?thesis
      by simp
  qed
qed

lemma dict_writes_present:
  "fst ` set ws \<subseteq> fst ` set d \<Longrightarrow>
   dict_writes ws d = map (\<lambda>(k, v). (k, case map_of (rev ws) k of None \<Rightarrow> v | Some v' \<Rightarrow> v')) d"
proof (induction ws arbitrary: d)
  case Nil
  then show ?case by simp
next
  case (Cons w ws)
  obtain k0 v0 where w: "w = (k0, v0)"
    by (cases w)
  from Cons.prems w have k0: "k0 \<in> fst ` set d" and sub: "fst ` set ws \<subseteq> fst ` set d"
    by auto
  have keys: "fst ` set (dict_assign k0 v0 d) = fst ` set d"
    using keys_dict_set [of k0 v0 d] k0 by (simp add: dict_set_present insert_absorb)
  have "dict_writes (w # ws) d = dict_writes ws (dict_assign k0 v0 d)"
    using k0 w by (simp add: dict_set_present)
  also have "\<dots> = map (\<lambda>(k, v). (k, case map_of (rev ws) k of None \<Rightarrow> v | Some v' \<Rightarrow> v'))
                      (dict_assign k0 v0 d)"
    using sub keys by (intro Cons.IH) simp
  also have "\<dots> = map (\<lambda>(k, v). (k, case map_of (rev (w # ws)) k of None \<Rightarrow> v | Some v' \<Rightarrow> v')) d"
    unfolding dict_assign_map map_map using w
    by (intro map_cong) (auto simp: map_add_def split: option.splits)
  finally show ?case .
qed

lemma dict_writes_idem: "dict_writes ws (dict_writes ws d) = dict_writes ws d"
proof -
  let ?d = "dict_writes ws d"
  have "fst ` set ws \<subseteq> fst ` set ?d"
    by (simp add: keys_dict_writes)
  then have "dict_writes ws ?d
      = map (\<lambda>(k, v). (k, case map_of (rev ws) k of None \<Rightarrow> v | Some v' \<Rightarrow> v')) ?d"
    by (rule dict_writes_present)
  also have "\<dots> = ?d"
  proof (rule map_idI)
    fix x
    assume x: "x \<in> set ?d"
    obtain k v where kv: "x = (k, v)"
      by (cases x)
    show "(case x of (k, v) \<Rightarrow> (k, case map_of (rev ws) k of None \<Rightarrow> v | Some v' \<Rightarrow> v')) = x"
    proof (cases "map_of (rev ws) k")
      case None
      with kv show ?thesis by simp
    next
      case (Some v')
      with dict_writes_last [of k v ws d v'] x kv have "v = v'"
        by simp
      with kv Some show ?thesis by simp
    qed
  qed
  finally show ?thesis .
qed

subsection \<open>Lookup order of \<open>getNode\<close>\<close>

text \<open>
  Without an accessible list, \<open>getNode\<close> tries its keys in the order data center,
  residency, environment, type, and the first key the node map holds decides. The loop
  over an accessible list ends with the last of its hits.
\<close>

lemma lookupNode_without_accessible:
  "acc = None \<or> acc = Some [] \<Longrightarrow>
   lookupNode m t e r i acc
     = (if truthy i \<and> hasOwnProperty m (key3 t (tmpl e) (tmpl r) (tmpl i))
        then dict_get m (key3 t (tmpl e) (tmpl r) (tmpl i))
        else if truthy e \<and> truthy r \<and> hasOwnProperty m (key2 t (tmpl e) (tmpl r))
        then dict_get m (key2 t (tmpl e) (tmpl r))
        else if truthy e \<and> hasOwnProperty m (key2 t (tmpl e) ''*'')
        then dict_get m (key2 t (tmpl e) ''*'')
        else if hasOwnProperty m (key2 t ''*'' ''*'')
        then dict_get m (key2 t ''*'' ''*'')
        else None)"
  by (auto simp: lookupNode_def Let_def hasOwnProperty_def dict_get_def map_of_eq_None_iff)

lemma accessible_loop_last_hit:
  "accessible_loop m t e r i acc node
     = (case filter (\<lambda>a. Some a \<noteq> i \<and> hasOwnProperty m (key3 t (tmpl e) (tmpl r) a)) (rev acc) of
          [] \<Rightarrow> node
        | a # _ \<Rightarrow> dict_get m (key3 t (tmpl e) (tmpl r) a))"
proof (induction acc arbitrary: node)
  case Nil
  show ?case by simp
next
  case (Cons a acc)
  show ?case
    by (simp add: Cons.IH split: list.splits)
qed

text \<open>
  Claim C1 says that \<open>getNode\<close> tries its keys in a fixed order and stops at the first
  key the node map holds, the ids of \<open>accessible\<close> being tried in list order. The loop
  over \<open>accessible\<close> does not stop at a hit. With the two descriptors of
  \<open>two_centers\<close> loaded and the context \<open>{accessible: ['a', 'b']}\<close>, the key of data
  center \<open>a\<close> is in the node map and holds the first descriptor, the key of \<open>b\<close> holds
  the second, and \<open>getNode\<close> answers the second.
\<close>

theorem getNode_accessible_takes_last_hit:
  "(case setLocations [0, 1] (initial (store two_centers)) of
      Inl e \<Rightarrow> False
    | Inr this \<Rightarrow>
        dict_get (nodeMap this) (key3 ''t'' ''production'' ''US'' ''a'') = Some 0
        \<and> dict_get (nodeMap this) (key3 ''t'' ''production'' ''US'' ''b'') = Some 1
        \<and> (case getNode ''t'' (Some (partial_context\<lparr>ctx_accessible := Some [''a'', ''b'']\<rparr>))
                   this of
              Inl e \<Rightarrow> False
            | Inr (node, this') \<Rightarrow> node = Some 1))"
  by code_simp

subsection \<open>Wildcards of a location pattern\<close>

text \<open>
  Claim C4 says that every \<open>*\<close> of a uri or alias becomes a run of one or more
  characters of \<open>[A-Za-z0-9_]\<close>. \<open>escapeLocationPattern\<close> rewrites the first \<open>*\<close>
  only; a second one stays in the pattern, where it is the quantifier of the escaped
  character before it. With the descriptors of \<open>uiNode\<close> loaded, a URL with one
  wildcard segment is found, and a URL that fills the two wildcards of the alias
  \<open>https://accounts-*-*.ui-dev.product.dev.alertlogic.com\<close> is not.
\<close>

theorem escapeLocationPattern_first_wildcard_only:
  "escapeLocationPattern ''a-*-*''
     = ''^a'' @ [CHR 0x5C] @ ''-[a-zA-Z0-9_]+'' @ [CHR 0x5C] @ ''-*.*$''
   \<and> rx_parse (escapeLocationPattern ''a-*-*'')
     = Some [(Bol, Once), (Lit (CHR ''a''), Once), (Lit (CHR ''-''), Once), (WordClass, Plus),
             (Lit (CHR ''-''), Star), (AnyChar, Star), (Eol, Once)]
   \<and> (case setLocations [0, 1, 2, 3]
              (initial (store (uiNode ''cd17:accounts'' ''accounts'' ''8002''))) of
         Inl e \<Rightarrow> False
       | Inr this \<Rightarrow>
           fst (getNodeByURI ''https://accounts-pr.ui-dev.product.dev.alertlogic.com'' this)
             = Some 2
           \<and> fst (getNodeByURI ''https://accounts-pr-12.ui-dev.product.dev.alertlogic.com''
                    this) = None)"
  by code_simp

subsection \<open>\<open>getNode\<close> and its memo\<close>

lemma getNode_usable_memo:
  "\<not> hasOwnProperty (nodes this) ''hasOwnProperty'' \<Longrightarrow>
   \<exists>node this1. getNode t c this = Inr (node, this1)"
  by (simp add: getNode_def Let_def)

lemma getNode_poisoned_memo:
  "hasOwnProperty (nodes this) ''hasOwnProperty'' \<Longrightarrow> getNode t c this = Inl (TypeError, this)"
  by (simp add: getNode_def)

lemma getNode_miss_state: "getNode t c this = Inr (None, this1) \<Longrightarrow> this1 = this"
  by (auto simp: getNode_def Let_def split: if_splits)

lemma getNode_miss: "map_sum fst fst (getNode t c this) = Inr None \<Longrightarrow> getNode t c this = Inr (None, this)"
  by (auto simp: getNode_def Let_def split: if_splits)

lemma getNode_hit:
  "map_sum fst fst (getNode t c this) = Inr (Some n) \<Longrightarrow> \<exists>this1. getNode t c this = Inr (Some n, this1)"
  by (cases "getNode t c this") auto

lemma getNode_heap: "getNode t c this = Inr (r, this1) \<Longrightarrow> heap this1 = heap this"
  by (auto simp: getNode_def Let_def split: if_splits)

lemma getNode_nodeMap: "getNode t c this = Inr (r, this1) \<Longrightarrow> nodeMap this1 = nodeMap this"
  by (auto simp: getNode_def Let_def split: if_splits)

text \<open>
  The keys of the node index contain a hyphen: neither \<open>hasOwnProperty\<close> nor
  \<open>__proto__\<close> is one of them.
\<close>

lemma saveNode_keys_hyphen: "k \<in> set (saveNode_keys d) \<Longrightarrow> CHR ''-'' \<in> set k"
  by (auto simp: saveNode_keys_def key2_def key3_def split: if_splits)

subsection \<open>\<open>resolveNodeURI\<close>, step by step\<close>

lemma resolveNodeURI_cached:
  "truthy (fullURI (heap this node)) \<Longrightarrow>
   resolveNodeURI node c this = Some (Inr (tmpl (fullURI (heap this node)), this))"
  by (subst resolveNodeURI.simps) simp

lemma resolveNodeURI_parentless:
  "\<not> truthy (fullURI (heap this node)) \<Longrightarrow> \<not> truthy (parentId (heap this node)) \<Longrightarrow>
   resolveNodeURI node c this = Some (Inr (compose_uri node [] this))"
  by (subst resolveNodeURI.simps) simp

lemma resolveNodeURI_no_parent_found:
  "\<not> truthy (fullURI (heap this node)) \<Longrightarrow> truthy (parentId (heap this node)) \<Longrightarrow>
   getNode (tmpl (parentId (heap this node))) c this = Inr (None, this1) \<Longrightarrow>
   resolveNodeURI node c this = Some (Inr (compose_uri node [] this1))"
  by (subst resolveNodeURI.simps) simp

lemma resolveNodeURI_parent:
  "\<not> truthy (fullURI (heap this node)) \<Longrightarrow> truthy (parentId (heap this node)) \<Longrightarrow>
   getNode (tmpl (parentId (heap this node))) c this = Inr (Some parentNode, this1) \<Longrightarrow>
   resolveNodeURI parentNode c this1 = Some (Inr (u, this2)) \<Longrightarrow>
   resolveNodeURI node c this = Some (Inr (compose_uri node u this2))"
  by (subst resolveNodeURI.simps) simp

lemma resolveNodeURI_getNode_throws:
  "\<not> truthy (fullURI (heap this node)) \<Longrightarrow> truthy (parentId (heap this node)) \<Longrightarrow>
   getNode (tmpl (parentId (heap this node))) c this = Inl e \<Longrightarrow>
   resolveNodeURI node c this = Some (Inl e)"
  by (subst resolveNodeURI.simps) simp

lemma resolveNodeURI_returns:
  "resolves_within k node c this \<Longrightarrow> \<exists>u this'. resolveNodeURI node c this = Some (Inr (u, this'))"
proof (induction k arbitrary: node this)
  case 0
  show ?case
  proof (cases "truthy (fullURI (heap this node))")
    case True
    then show ?thesis
      by (simp add: resolveNodeURI_cached)
  next
    case False
    show ?thesis
    proof (cases "truthy (parentId (heap this node))")
      case True
      with 0 False obtain this1 where
        "getNode (tmpl (parentId (heap this node))) c this = Inr (None, this1)"
        by (auto split: sum.splits option.splits)
      from resolveNodeURI_no_parent_found [OF False True this] show ?thesis
        by (metis prod.collapse)
    next
      case nop: False
      from resolveNodeURI_parentless [OF False nop] show ?thesis
        by (metis prod.collapse)
    qed
  qed
next
  case (Suc k)
  show ?case
  proof (cases "truthy (fullURI (heap this node))")
    case True
    then show ?thesis
      by (simp add: resolveNodeURI_cached)
  next
    case False
    show ?thesis
    proof (cases "truthy (parentId (heap this node))")
      case True
      with Suc.prems False have
        r: "(case getNode (tmpl (parentId (heap this node))) c this of
              Inl e \<Rightarrow> False
            | Inr (None, this1) \<Rightarrow> True
            | Inr (Some parentNode, this1) \<Rightarrow> resolves_within k parentNode c this1)"
        by simp
      then obtain p this1 where
        g: "getNode (tmpl (parentId (heap this node))) c this = Inr (p, this1)"
        by (cases "getNode (tmpl (parentId (heap this node))) c this") auto
      show ?thesis
      proof (cases p)
        case None
        with g resolveNodeURI_no_parent_found [OF False True] show ?thesis
          by (metis prod.collapse)
      next
        case (Some parentNode)
        with r g have "resolves_within k parentNode c this1"
          by simp
        from Suc.IH [OF this] obtain u this2 where
          "resolveNodeURI parentNode c this1 = Some (Inr (u, this2))"
          by blast
        with g Some resolveNodeURI_parent [OF False True] show ?thesis
          by (metis prod.collapse)
      qed
    next
      case nop: False
      from resolveNodeURI_parentless [OF False nop] show ?thesis
        by (metis prod.collapse)
    qed
  qed
qed

subsection \<open>\<open>resolveURL\<close>\<close>

text \<open>
  Two ways in which \<open>resolveURL\<close> does not return a string. A descriptor that is its
  own parent: as long as its \<open>_fullURI\<close> is not set and the lookup of its parent answers
  the descriptor itself, \<open>resolveNodeURI\<close> does not return.
\<close>

lemma resolveNodeURI_self_parent:
  assumes inv: "\<And>this. I this \<Longrightarrow>
                  \<not> truthy (fullURI (heap this n)) \<and> truthy (parentId (heap this n))
                  \<and> (\<exists>this1. getNode (tmpl (parentId (heap this n))) c this = Inr (Some n, this1)
                         \<and> I this1)"
      and "I this"
  shows "resolveNodeURI n c this = None"
proof -
  have "\<not> (node = n \<and> c' = c \<and> I this')" if r: "resolveNodeURI node c' this' = Some y"
    for node c' this' y
  proof (rule resolveNodeURI.raw_induct
           [where P = "\<lambda>node c' this' y. \<not> (node = n \<and> c' = c \<and> I this')", OF _ r])
    fix f node c' this' y
    assume IH: "\<And>node c' this' y. f node c' this' = Some y \<Longrightarrow> \<not> (node = n \<and> c' = c \<and> I this')"
      and eq: "(if truthy (fullURI (heap this' node))
                then Some (Inr (tmpl (fullURI (heap this' node)), this'))
                else Option.bind
                  (if truthy (parentId (heap this' node)) then
                     (case getNode (tmpl (parentId (heap this' node))) c' this' of
                        Inl e \<Rightarrow> Some (Inl e)
                      | Inr (None, this1) \<Rightarrow> Some (Inr ([], this1))
                      | Inr (Some parentNode, this1) \<Rightarrow> f parentNode c' this1)
                   else Some (Inr ([], this')))
                  (\<lambda>r. case r of
                         Inl e \<Rightarrow> Some (Inl e)
                       | Inr (uri0, this2) \<Rightarrow> Some (Inr (compose_uri node uri0 this2)))) = Some y"
    show "\<not> (node = n \<and> c' = c \<and> I this')"
    proof
      assume a: "node = n \<and> c' = c \<and> I this'"
      with inv [of this'] obtain this1 where
        f: "\<not> truthy (fullURI (heap this' n))" and p: "truthy (parentId (heap this' n))"
        and gn: "getNode (tmpl (parentId (heap this' n))) c this' = Inr (Some n, this1)"
        and i1: "I this1"
        by auto
      with eq a have "Option.bind (f n c this1)
          (\<lambda>r. case r of
                 Inl e \<Rightarrow> Some (Inl e)
               | Inr (uri0, this2) \<Rightarrow> Some (Inr (compose_uri n uri0 this2))) = Some y"
        by simp
      then obtain y' where "f n c this1 = Some y'"
        by (cases "f n c this1") simp_all
      from IH [OF this] i1 show False
        by simp
    qed
  qed
  with \<open>I this\<close> show ?thesis
    by (cases "resolveNodeURI n c this") auto
qed

lemma self_parent_loaded:
  "(case setLocations [0] (initial (store self_parent)) of
      Inl e \<Rightarrow> False
    | Inr this \<Rightarrow>
        nodeMap this = [(''a-*-*'', 0)] \<and> nodes this = []
        \<and> parentId (heap this 0) = Some ''a'' \<and> fullURI (heap this 0) = None
        \<and> context this = \<lparr>ctx_environment = Some ''production'', ctx_residency = Some ''US'',
                            ctx_insightLocationId = None, ctx_accessible = None\<rparr>)"
  by code_simp

lemma resolveURL_parent_cycle:
  "(case setLocations [0] (initial (store self_parent)) of
      Inl e \<Rightarrow> False
    | Inr this \<Rightarrow> resolveURL ''a'' None None None this = None)"
proof (cases "setLocations [0] (initial (store self_parent))")
  case (Inl e)
  with self_parent_loaded show ?thesis by simp
next
  case (Inr this)
  define I where "I (s::AlLocatorMatrix) \<longleftrightarrow>
      nodeMap s = [(''a-*-*'', 0)] \<and> (nodes s = [] \<or> nodes s = [(''a'', 0)])
      \<and> parentId (heap s 0) = Some ''a'' \<and> fullURI (heap s 0) = None
      \<and> context s = \<lparr>ctx_environment = Some ''production'', ctx_residency = Some ''US'',
                       ctx_insightLocationId = None, ctx_accessible = None\<rparr>" for s
  have step: "\<exists>s1. getNode ''a'' None s = Inr (Some 0, s1) \<and> I s1" if "I s" for s
    using that unfolding I_def
    by (auto simp: getNode_def memo_set_def lookupNode_def hasOwnProperty_def dict_get_def
          dict_set_def pick_def pick_accessible_def key2_def key3_def truthy_def tmpl_def Let_def)
  have inv: "\<not> truthy (fullURI (heap s 0)) \<and> truthy (parentId (heap s 0))
             \<and> (\<exists>s1. getNode (tmpl (parentId (heap s 0))) None s = Inr (Some 0, s1) \<and> I s1)"
    if "I s" for s
  proof -
    from that have "parentId (heap s 0) = Some ''a''" "fullURI (heap s 0) = None"
      by (simp_all add: I_def)
    with step [OF that] show ?thesis
      by (simp add: truthy_def tmpl_def)
  qed
  from self_parent_loaded Inr have "I this"
    by (simp add: I_def)
  with step obtain this1 where gn: "getNode ''a'' None this = Inr (Some 0, this1)" and i1: "I this1"
    by blast
  have "resolveNodeURI 0 None this1 = None"
    using inv i1 by (rule resolveNodeURI_self_parent [where I = I])
  with gn have "resolveURL ''a'' None None None this = None"
    by (simp add: resolveURL_def)
  with Inr show ?thesis by simp
qed

text \<open>
  And a type id that is the name \<open>hasOwnProperty\<close>: the first \<open>resolveURL\<close> of that type
  stores it in the memo, and from then on every \<open>resolveURL\<close> throws a \<open>TypeError\<close>.
\<close>

lemma reserved_type_loaded:
  "(case setLocations [0] (initial (store reserved_type)) of
      Inl e \<Rightarrow> False
    | Inr this \<Rightarrow>
        nodes this = [] \<and> map_sum fst fst (getNode ''hasOwnProperty'' None this) = Inr (Some 0)
        \<and> parentId (heap this 0) = None \<and> fullURI (heap this 0) = None
        \<and> uri (heap this 0) = ''https://h.example.com'')"
  by code_simp

lemma resolveURL_memo_of_hasOwnProperty:
  "(case setLocations [0] (initial (store reserved_type)) of
      Inl e \<Rightarrow> False
    | Inr this \<Rightarrow>
        (\<exists>this2. resolveURL ''hasOwnProperty'' None None None this
                    = Some (Inr (''https://h.example.com'', this2))
           \<and> resolveURL ''hasOwnProperty'' None None None this2 = Some (Inl (TypeError, this2))
           \<and> resolveURL ''unknown:type'' None None None this2 = Some (Inl (TypeError, this2))))"
proof (cases "setLocations [0] (initial (store reserved_type))")
  case (Inl e)
  with reserved_type_loaded show ?thesis by simp
next
  case (Inr this)
  with reserved_type_loaded have
    m: "nodes this = []" and g: "map_sum fst fst (getNode ''hasOwnProperty'' None this) = Inr (Some 0)"
    and d: "parentId (heap this 0) = None" "fullURI (heap this 0) = None"
      "uri (heap this 0) = ''https://h.example.com''"
    by simp_all
  from m g have g1: "getNode ''hasOwnProperty'' None this
      = Inr (Some 0, this\<lparr>nodes := [(''hasOwnProperty'', 0)]\<rparr>)"
    by (auto simp: getNode_def Let_def hasOwnProperty_def memo_set_def dict_set_def
          split: if_splits)
  let ?this1 = "this\<lparr>nodes := [(''hasOwnProperty'', 0)]\<rparr>"
  obtain u this2 where c: "compose_uri 0 [] ?this1 = (u, this2)"
    by (cases "compose_uri 0 [] ?this1")
  with d have u: "u = ''https://h.example.com''" and n2: "nodes this2 = [(''hasOwnProperty'', 0)]"
    by (auto simp: compose_uri_def Let_def truthy_def)
  have "resolveNodeURI 0 None ?this1 = Some (Inr (u, this2))"
    using d c by (simp add: resolveNodeURI_parentless truthy_def)
  with g1 u have 1: "resolveURL ''hasOwnProperty'' None None None this
                    = Some (Inr (''https://h.example.com'', this2))"
    by (simp add: resolveURL_def truthy_def)
  from n2 have "hasOwnProperty (nodes this2) ''hasOwnProperty''"
    by (simp add: hasOwnProperty_def)
  then have "resolveURL t None None None this2 = Some (Inl (TypeError, this2))" for t
    by (simp add: resolveURL_def getNode_poisoned_memo)
  with 1 Inr show ?thesis
    by simp
qed

text \<open>
  Claim C2 says that \<open>resolveURL\<close> of a type that does not resolve returns the ambient
  origin, followed by the path if one is given. The code appends the pathname of the
  current location to the origin when that pathname is longer than one character: in a
  window at \<open>https://console.example.com/dashboard\<close>, \<open>resolveURL('unknown:type')\<close> on
  an instance without nodes returns \<open>https://console.example.com/dashboard\<close>, which is
  not the origin \<open>https://console.example.com\<close>.
\<close>

theorem resolveURL_ambient_pathname:
  "origin dashboard_window = ''https://console.example.com''
   \<and> resolveURL ''unknown:type'' None None (Some dashboard_window) (initial (store []))
       = Some (Inr (''https://console.example.com/dashboard'', initial (store [])))"
  by (simp add: resolveURL_def getNode_def lookupNode_def hasOwnProperty_def pick_def
        pick_accessible_def initial_def truthy_def ambient_url_def dashboard_window_def Let_def)

text \<open>
  Claim C2, amended. As long as the memo does not hold the type id \<open>hasOwnProperty\<close>,
  \<open>getNode\<close> returns. When it returns no node, \<open>resolveURL\<close> returns the ambient URL
  followed by the path, if one is given, and leaves the instance as it is; a miss is not
  an error. The ambient URL is the origin of \<open>window.location\<close>, followed by its
  pathname when that is longer than one character, or the placeholder
  \<open>http://localhost:9999\<close> in a runtime without \<open>window\<close>. When \<open>getNode\<close> returns a
  node whose chain of parents ends (at a descriptor with \<open>_fullURI\<close> set, at a
  descriptor without parent or at a parent id that \<open>getNode\<close> does not find) and no
  \<open>getNode\<close> of a parent throws, \<open>resolveNodeURI\<close> returns a URL for the node and
  \<open>resolveURL\<close> returns that URL followed by the path.
\<close>

theorem resolveURL_returns:
  "(\<not> hasOwnProperty (nodes this) ''hasOwnProperty'' \<longrightarrow>
      (\<exists>node this1. getNode t c this = Inr (node, this1)))
   \<and> (getNode t c this = Inr (None, this1) \<longrightarrow>
        resolveURL t path c window this
          = Some (Inr (ambient_url window @ (if truthy path then tmpl path else []), this)))
   \<and> (getNode t c this = Inr (Some loc, this1) \<and> resolves_within k loc None this1 \<longrightarrow>
        (\<exists>u this2. resolveNodeURI loc None this1 = Some (Inr (u, this2))
           \<and> resolveURL t path c window this
               = Some (Inr (u @ (if truthy path then tmpl path else []), this2))))
   \<and> ambient_url None = ''http://localhost:9999''
   \<and> ambient_url (Some l) = origin l @ (if length (pathname l) > 1 then pathname l else [])"
proof -
  have miss: "resolveURL t path c window this
        = Some (Inr (ambient_url window @ (if truthy path then tmpl path else []), this))"
    if "getNode t c this = Inr (None, this1)"
    using that getNode_miss_state [OF that] by (simp add: resolveURL_def)
  have hit: "\<exists>u this2. resolveNodeURI loc None this1 = Some (Inr (u, this2))
           \<and> resolveURL t path c window this
               = Some (Inr (u @ (if truthy path then tmpl path else []), this2))"
    if g: "getNode t c this = Inr (Some loc, this1)" and r: "resolves_within k loc None this1"
  proof -
    from resolveNodeURI_returns [OF r] obtain u this2 where
      "resolveNodeURI loc None this1 = Some (Inr (u, this2))"
      by blast
    with g show ?thesis
      by (simp add: resolveURL_def)
  qed
  from miss hit getNode_usable_memo [of this t c] show ?thesis
    by (simp add: ambient_url_def)
qed

lemma global_api_constructed:
  "(case construct (store global_api) [0] (Bool True) None None of
      Inl e \<Rightarrow> False
    | Inr this \<Rightarrow>
        nodes this = []
        \<and> map_sum fst fst (getNode ''unknown:type'' None this) = Inr None
        \<and> map_sum fst fst (getNode ''global:api'' None this) = Inr (Some 0)
        \<and> fullURI (heap this 0) = None \<and> parentId (heap this 0) = None
        \<and> uri (heap this 0) = ''https://api.global.alertlogic.com'')"
  by code_simp

theorem resolveURL_returns_witness:
  "(case construct (store global_api) [0] (Bool True) None None of
      Inl e \<Rightarrow> False
    | Inr this \<Rightarrow>
        \<not> hasOwnProperty (nodes this) ''hasOwnProperty''
        \<and> getNode ''unknown:type'' None this = Inr (None, this)
        \<and> resolveURL ''unknown:type'' None None None this
            = Some (Inr (''http://localhost:9999'', this))
        \<and> (\<exists>this1. getNode ''global:api'' None this = Inr (Some 0, this1)
              \<and> resolves_within 0 0 None this1)
        \<and> map_option (map_sum fst fst) (resolveURL ''global:api'' None None None this)
            = Some (Inr ''https://api.global.alertlogic.com'')
        \<and> map_option (map_sum fst fst)
              (resolveURL ''global:api'' (Some ''/v2/users'') None None this)
            = Some (Inr ''https://api.global.alertlogic.com/v2/users''))"
proof (cases "construct (store global_api) [0] (Bool True) None None")
  case (Inl e)
  with global_api_constructed show ?thesis by simp
next
  case (Inr this)
  with global_api_constructed have
    n: "nodes this = []"
    and m: "map_sum fst fst (getNode ''unknown:type'' None this) = Inr None"
    and g: "map_sum fst fst (getNode ''global:api'' None this) = Inr (Some 0)"
    and f: "fullURI (heap this 0) = None" and p: "parentId (heap this 0) = None"
    and v: "uri (heap this 0) = ''https://api.global.alertlogic.com''"
    by simp_all
  from n have usable: "\<not> hasOwnProperty (nodes this) ''hasOwnProperty''"
    by (simp add: hasOwnProperty_def)
  from mp [OF conjunct1 [OF resolveURL_returns
      [where t = "''unknown:type''" and c = None and this = this]] usable]
  obtain node0 this0 where "getNode ''unknown:type'' None this = Inr (node0, this0)"
    by blast
  with m getNode_miss [OF m] have m1: "getNode ''unknown:type'' None this = Inr (None, this)"
    by simp
  have a: "resolveURL ''unknown:type'' None None None this
             = Some (Inr (''http://localhost:9999'', this))"
    using mp [OF conjunct1 [OF conjunct2 [OF resolveURL_returns
      [where t = "''unknown:type''" and c = None and this = this and path = None
         and window = None and ?this1.0 = this]]] m1]
    by (simp add: ambient_url_def truthy_def)
  from getNode_hit [OF g] obtain this1 where g1: "getNode ''global:api'' None this = Inr (Some 0, this1)"
    by blast
  from getNode_heap [OF g1] f p v have f1: "fullURI (heap this1 0) = None"
    and p1: "parentId (heap this1 0) = None"
    and v1: "uri (heap this1 0) = ''https://api.global.alertlogic.com''"
    by simp_all
  from p1 have r1: "resolves_within 0 0 None this1"
    by (simp add: truthy_def)
  from f1 p1 v1 have u1: "map_option (map_sum fst fst) (resolveNodeURI 0 None this1)
                   = Some (Inr ''https://api.global.alertlogic.com'')"
    by (simp add: resolveNodeURI_parentless truthy_def compose_uri_def Let_def)
  from mp [OF conjunct1 [OF conjunct2 [OF conjunct2 [OF resolveURL_returns
      [where t = "''global:api''" and c = None and this = this and path = None
         and window = None and loc = 0 and ?this1.0 = this1 and k = 0]]]]] g1 r1 u1
  have b: "map_option (map_sum fst fst) (resolveURL ''global:api'' None None None this)
             = Some (Inr ''https://api.global.alertlogic.com'')"
    by (auto simp: truthy_def)
  from mp [OF conjunct1 [OF conjunct2 [OF conjunct2 [OF resolveURL_returns
      [where t = "''global:api''" and c = None and this = this and path = "Some ''/v2/users''"
         and window = None and loc = 0 and ?this1.0 = this1 and k = 0]]]]] g1 r1 u1
  have c: "map_option (map_sum fst fst)
             (resolveURL ''global:api'' (Some ''/v2/users'') None None this)
             = Some (Inr ''https://api.global.alertlogic.com/v2/users'')"
    by (auto simp: truthy_def tmpl_def)
  from g1 r1 have "\<exists>this1. getNode ''global:api'' None this = Inr (Some 0, this1)
              \<and> resolves_within 0 0 None this1"
    by blast
  with Inr usable m1 a b c show ?thesis
    by simp
qed

subsection \<open>\<open>resolveNodeURI\<close>: composition\<close>

lemma compose_uri_stores:
  "compose_uri node uri0 this = (u, this') \<Longrightarrow> fullURI (heap this' node) = Some u"
  by (auto simp: compose_uri_def Let_def)

lemma compose_uri_fields:
  "compose_uri node uri0 this = (u, this') \<Longrightarrow>
   uri (heap this' m) = uri (heap this m) \<and> parentId (heap this' m) = parentId (heap this m)"
  by (auto simp: compose_uri_def Let_def)

lemma bind_compose:
  assumes "Option.bind x (\<lambda>r. case r of
                                Inl e \<Rightarrow> Some (Inl e)
                              | Inr (uri0, this2) \<Rightarrow> Some (Inr (F uri0 this2))) = Some (Inr z)"
  shows "\<exists>uri0 this2. x = Some (Inr (uri0, this2)) \<and> F uri0 this2 = z"
proof (cases x)
  case None
  with assms show ?thesis by simp
next
  case (Some r)
  show ?thesis
  proof (cases r)
    case (Inl e)
    with assms Some show ?thesis by simp
  next
    case (Inr a)
    with assms Some show ?thesis by (cases a) simp
  qed
qed

lemma resolveNodeURI_stores:
  assumes "\<not> truthy (fullURI (heap this node))"
      and "resolveNodeURI node c this = Some (Inr (u, this'))"
  shows "fullURI (heap this' node) = Some u"
proof -
  from assms have "Option.bind
      (if truthy (parentId (heap this node)) then
         (case getNode (tmpl (parentId (heap this node))) c this of
            Inl e \<Rightarrow> Some (Inl e)
          | Inr (None, this1) \<Rightarrow> Some (Inr ([], this1))
          | Inr (Some parentNode, this1) \<Rightarrow> resolveNodeURI parentNode c this1)
       else Some (Inr ([], this)))
      (\<lambda>r. case r of
             Inl e \<Rightarrow> Some (Inl e)
           | Inr (uri0, this2) \<Rightarrow> Some (Inr (compose_uri node uri0 this2))) = Some (Inr (u, this'))"
    by (subst (asm) resolveNodeURI.simps) simp
  from bind_compose [OF this] obtain uri0 this2 where "compose_uri node uri0 this2 = (u, this')"
    by blast
  then show ?thesis
    by (rule compose_uri_stores)
qed

text \<open>\<open>resolveNodeURI\<close> writes \<open>_fullURI\<close> and nothing else of a descriptor.\<close>

lemma resolveNodeURI_fields:
  assumes r: "resolveNodeURI node c this = Some y"
  shows "\<forall>u this'. y = Inr (u, this') \<longrightarrow>
           (\<forall>m. uri (heap this' m) = uri (heap this m)
                \<and> parentId (heap this' m) = parentId (heap this m))"
proof (rule resolveNodeURI.raw_induct
         [where P = "\<lambda>node c this y. \<forall>u this'. y = Inr (u, this') \<longrightarrow>
           (\<forall>m. uri (heap this' m) = uri (heap this m)
                \<and> parentId (heap this' m) = parentId (heap this m))", OF _ r])
  fix f node c this y
  assume IH: "\<And>node c this y. f node c this = Some y \<Longrightarrow>
                \<forall>u this'. y = Inr (u, this') \<longrightarrow>
                  (\<forall>m. uri (heap this' m) = uri (heap this m)
                       \<and> parentId (heap this' m) = parentId (heap this m))"
    and eq: "(if truthy (fullURI (heap this node))
              then Some (Inr (tmpl (fullURI (heap this node)), this))
              else Option.bind
                (if truthy (parentId (heap this node)) then
                   (case getNode (tmpl (parentId (heap this node))) c this of
                      Inl e \<Rightarrow> Some (Inl e)
                    | Inr (None, this1) \<Rightarrow> Some (Inr ([], this1))
                    | Inr (Some parentNode, this1) \<Rightarrow> f parentNode c this1)
                 else Some (Inr ([], this)))
                (\<lambda>r. case r of
                       Inl e \<Rightarrow> Some (Inl e)
                     | Inr (uri0, this2) \<Rightarrow> Some (Inr (compose_uri node uri0 this2)))) = Some y"
  show "\<forall>u this'. y = Inr (u, this') \<longrightarrow>
          (\<forall>m. uri (heap this' m) = uri (heap this m)
               \<and> parentId (heap this' m) = parentId (heap this m))"
  proof (intro allI impI)
    fix u this' m
    assume y: "y = Inr (u, this')"
    show "uri (heap this' m) = uri (heap this m)
          \<and> parentId (heap this' m) = parentId (heap this m)"
    proof (cases "truthy (fullURI (heap this node))")
      case True
      with eq y show ?thesis
        by simp
    next
      case False
      with eq y have "Option.bind
          (if truthy (parentId (heap this node)) then
             (case getNode (tmpl (parentId (heap this node))) c this of
                Inl e \<Rightarrow> Some (Inl e)
              | Inr (None, this1) \<Rightarrow> Some (Inr ([], this1))
              | Inr (Some parentNode, this1) \<Rightarrow> f parentNode c this1)
           else Some (Inr ([], this)))
          (\<lambda>r. case r of
                 Inl e \<Rightarrow> Some (Inl e)
               | Inr (uri0, this2) \<Rightarrow> Some (Inr (compose_uri node uri0 this2)))
          = Some (Inr (u, this'))"
        by simp
      from bind_compose [OF this] obtain uri0 this2 where
        inner: "(if truthy (parentId (heap this node)) then
                   (case getNode (tmpl (parentId (heap this node))) c this of
                      Inl e \<Rightarrow> Some (Inl e)
                    | Inr (None, this1) \<Rightarrow> Some (Inr ([], this1))
                    | Inr (Some parentNode, this1) \<Rightarrow> f parentNode c this1)
                 else Some (Inr ([], this))) = Some (Inr (uri0, this2))"
        and co: "compose_uri node uri0 this2 = (u, this')"
        by blast
      have "uri (heap this2 m) = uri (heap this m)
            \<and> parentId (heap this2 m) = parentId (heap this m)"
      proof (cases "truthy (parentId (heap this node))")
        case nop: False
        with inner show ?thesis
          by simp
      next
        case True
        show ?thesis
        proof (cases "getNode (tmpl (parentId (heap this node))) c this")
          case (Inl e)
          with inner True show ?thesis
            by simp
        next
          case (Inr a)
          obtain p this1 where a: "a = (p, this1)"
            by (cases a)
          from Inr a have h1: "heap this1 = heap this"
            by (auto dest: getNode_heap)
          show ?thesis
          proof (cases p)
            case None
            with inner True Inr a h1 show ?thesis
              by simp
          next
            case (Some parentNode)
            with inner True Inr a have "f parentNode c this1 = Some (Inr (uri0, this2))"
              by simp
            from IH [OF this] h1 show ?thesis
              by simp
          qed
        qed
      qed
      with compose_uri_fields [OF co, of m] show ?thesis
        by simp
    qed
  qed
qed

text \<open>
  The step of the composition, at any depth: when the parent of a node without cached
  URL is found and resolves to a URL, the node resolves to that URL followed by its own
  \<open>uri\<close>, and the result is stored in its \<open>_fullURI\<close>.
\<close>

lemma resolveNodeURI_child:
  assumes f: "\<not> truthy (fullURI (heap this node))"
      and pn: "truthy (parentId (heap this node))"
      and g: "getNode (tmpl (parentId (heap this node))) c this = Inr (Some p, this1)"
      and rp: "resolveNodeURI p c this1 = Some (Inr (up, this2))"
  shows "\<exists>this3. resolveNodeURI node c this = Some (Inr (up @ uri (heap this node), this3))
           \<and> fullURI (heap this3 node) = Some (up @ uri (heap this node))"
proof -
  from getNode_heap [OF g] have h1: "heap this1 = heap this" .
  from resolveNodeURI_fields [OF rp] h1 have
    u: "uri (heap this2 node) = uri (heap this node)"
    and q: "parentId (heap this2 node) = parentId (heap this node)"
    by simp_all
  obtain u' this3 where co: "compose_uri node up this2 = (u', this3)"
    by (cases "compose_uri node up this2")
  with u q pn have "u' = up @ uri (heap this node)"
    by (auto simp: compose_uri_def Let_def)
  with co compose_uri_stores [OF co] resolveNodeURI_parent [OF f pn g rp] show ?thesis
    by simp
qed

lemma resolveNodeURI_bare:
  assumes "\<not> truthy (fullURI (heap this node))" and "\<not> truthy (parentId (heap this node))"
      and "uri (heap this node) \<noteq> []" and "take 4 (uri (heap this node)) \<noteq> ''http''"
  shows "\<exists>this'. resolveNodeURI node c this = Some (Inr (''https://'' @ uri (heap this node), this'))
           \<and> fullURI (heap this' node) = Some (''https://'' @ uri (heap this node))"
  using assms by (simp add: resolveNodeURI_parentless compose_uri_def Let_def)

lemma family_loaded:
  "(case setLocations [0, 1, 2, 3] (initial (store family)) of
      Inl e \<Rightarrow> False
    | Inr this \<Rightarrow>
        map_sum fst fst (getNode ''p'' None this) = Inr (Some 0)
        \<and> fullURI (heap this 0) = None \<and> parentId (heap this 0) = None
        \<and> uri (heap this 0) = ''https://p.example.com''
        \<and> fullURI (heap this 1) = None \<and> parentId (heap this 1) = Some ''p''
        \<and> uri (heap this 1) = ''/child''
        \<and> fullURI (heap this 2) = None \<and> parentId (heap this 2) = None
        \<and> uri (heap this 2) = ''bare.example.com'')"
  by code_simp

text \<open>The two examples of the composition: the child of a parent, and a bare domain.\<close>

lemma resolveNodeURI_family:
  "(case setLocations [0, 1, 2, 3] (initial (store family)) of
      Inl e \<Rightarrow> False
    | Inr this \<Rightarrow>
        map_option (map_sum fst fst) (resolveNodeURI 1 None this)
          = Some (Inr ''https://p.example.com/child'')
        \<and> (\<exists>this'. resolveNodeURI 2 None this = Some (Inr (''https://bare.example.com'', this'))
              \<and> fullURI (heap this' 2) = Some ''https://bare.example.com''
              \<and> resolveNodeURI 2 None this' = Some (Inr (''https://bare.example.com'', this'))))"
proof (cases "setLocations [0, 1, 2, 3] (initial (store family))")
  case (Inl e)
  with family_loaded show ?thesis by simp
next
  case (Inr this)
  with family_loaded have
    g: "map_sum fst fst (getNode ''p'' None this) = Inr (Some 0)"
    and p0: "fullURI (heap this 0) = None" "parentId (heap this 0) = None"
      "uri (heap this 0) = ''https://p.example.com''"
    and p1: "fullURI (heap this 1) = None" "parentId (heap this 1) = Some ''p''"
      "uri (heap this 1) = ''/child''"
    and p2: "fullURI (heap this 2) = None" "parentId (heap this 2) = None"
      "uri (heap this 2) = ''bare.example.com''"
    by simp_all
  from getNode_hit [OF g] obtain this1 where g1: "getNode ''p'' None this = Inr (Some 0, this1)"
    by blast
  from getNode_heap [OF g1] have h1: "heap this1 = heap this" .
  obtain u0 this2 where c0: "compose_uri 0 [] this1 = (u0, this2)"
    by (cases "compose_uri 0 [] this1")
  with p0 h1 have u0: "u0 = ''https://p.example.com''"
    by (auto simp: compose_uri_def Let_def truthy_def)
  from p0 h1 c0 u0 have r0: "resolveNodeURI 0 None this1
      = Some (Inr (''https://p.example.com'', this2))"
    by (simp add: resolveNodeURI_parentless truthy_def)
  have "\<exists>this3. resolveNodeURI 1 None this
          = Some (Inr (''https://p.example.com'' @ uri (heap this 1), this3))
        \<and> fullURI (heap this3 1) = Some (''https://p.example.com'' @ uri (heap this 1))"
    using p1 g1 r0 by (intro resolveNodeURI_child [where p = 0 and ?this1.0 = this1 and ?this2.0 = this2])
      (simp_all add: truthy_def tmpl_def)
  with p1 have a: "map_option (map_sum fst fst) (resolveNodeURI 1 None this)
          = Some (Inr ''https://p.example.com/child'')"
    by auto
  from resolveNodeURI_bare [of this 2 None] p2 obtain this' where
    b: "resolveNodeURI 2 None this = Some (Inr (''https://bare.example.com'', this'))"
    and s: "fullURI (heap this' 2) = Some ''https://bare.example.com''"
    by (auto simp: truthy_def)
  from s have "resolveNodeURI 2 None this' = Some (Inr (''https://bare.example.com'', this'))"
    by (simp add: resolveNodeURI_cached truthy_def tmpl_def)
  with Inr a b s show ?thesis
    by simp
qed

text \<open>
  Claim C7 says that every parentless node whose \<open>uri\<close> does not begin with a
  protocol scheme resolves to \<open>https://\<close> followed by the \<open>uri\<close>, and the comment in
  \<open>resolveNodeURI\<close> says the same (detect the protocol-less domains and add the default
  protocol to them). The test of the code is whether the \<open>uri\<close> begins with the four
  characters \<open>http\<close>: the parentless descriptor with the \<open>uri\<close> \<open>httpbin.org\<close>, a
  domain without protocol, resolves to \<open>httpbin.org\<close>, not to \<open>https://httpbin.org\<close>.
\<close>

theorem resolveNodeURI_http_prefix_kept:
  "parentId (heap (initial (store family)) 3) = None
   \<and> fullURI (heap (initial (store family)) 3) = None
   \<and> uri (heap (initial (store family)) 3) = ''httpbin.org''
   \<and> map_option (map_sum fst fst) (resolveNodeURI 3 None (initial (store family)))
       = Some (Inr ''httpbin.org'')"
proof -
  have "parentId (heap (initial (store family)) 3) = None"
    "fullURI (heap (initial (store family)) 3) = None"
    "uri (heap (initial (store family)) 3) = ''httpbin.org''"
    by code_simp+
  moreover from this
  have "map_option (map_sum fst fst) (resolveNodeURI 3 None (initial (store family)))
          = Some (Inr ''httpbin.org'')"
    by (simp add: resolveNodeURI_parentless truthy_def compose_uri_def Let_def)
  ultimately show ?thesis
    by simp
qed

subsection \<open>Normalization of the context\<close>

lemma normalizeContext_known_id:
  assumes "truthy (ctx_insightLocationId c)" and "ctx_accessible c = Some acc"
      and "AlInsightLocations (tmpl (ctx_insightLocationId c)) = Some e"
  shows "ctx_insightLocationId (normalizeContext c)
           = (case loc_alternatives e of
                None \<Rightarrow> ctx_insightLocationId c
              | Some alts \<Rightarrow>
                  (case select_alternative alts acc of
                     None \<Rightarrow> (case alts of [] \<Rightarrow> None | a # _ \<Rightarrow> Some a)
                   | Some a \<Rightarrow> Some a))"
    and "loc_residency e \<noteq> [] \<Longrightarrow> ctx_residency (normalizeContext c) = Some (loc_residency e)"
  using assms
  by (simp_all add: normalizeContext_def Let_def split: option.splits)

lemma select_alternative_find: "select_alternative alts acc = find (\<lambda>a. a \<in> set acc) alts"
  by (induction alts) simp_all

text \<open>
  Claim C5. Let the context hold a data-center id and an accessible list, and let the
  id be a key of \<open>AlInsightLocations\<close>. If the entry declares alternatives, the id
  becomes the first alternative, in declared order, that is in the accessible list, and
  the first alternative when none is. The residency of the context then is the residency
  the table declares for the id the context ends with. A context without an id or
  without an accessible list is left as it is. And \<open>setContext\<close> with the id
  \<open>insight-us-virginia\<close> and the accessible list \<open>['defender-us-ashburn']\<close> ends, from
  every state, with the id \<open>defender-us-ashburn\<close> and the residency \<open>US\<close>.
\<close>

theorem normalizeContext_alternatives:
  "(truthy (ctx_insightLocationId c) \<and> ctx_accessible c = Some acc
      \<and> AlInsightLocations (tmpl (ctx_insightLocationId c)) = Some e \<longrightarrow>
        (\<forall>alts. loc_alternatives e = Some alts \<longrightarrow>
           alts \<noteq> []
           \<and> ctx_insightLocationId (normalizeContext c)
               = Some (case find (\<lambda>a. a \<in> set acc) alts of Some a \<Rightarrow> a | None \<Rightarrow> hd alts))
        \<and> (\<exists>e'. AlInsightLocations (tmpl (ctx_insightLocationId (normalizeContext c))) = Some e'
                \<and> ctx_residency (normalizeContext c) = Some (loc_residency e')))
   \<and> (\<not> truthy (ctx_insightLocationId c) \<or> ctx_accessible c = None \<longrightarrow> normalizeContext c = c)
   \<and> ctx_insightLocationId (context (setContext
         (Some (partial_context\<lparr>ctx_insightLocationId := Some ''insight-us-virginia'',
                                 ctx_accessible := Some [''defender-us-ashburn'']\<rparr>)) this))
       = Some ''defender-us-ashburn''
   \<and> ctx_residency (context (setContext
         (Some (partial_context\<lparr>ctx_insightLocationId := Some ''insight-us-virginia'',
                                 ctx_accessible := Some [''defender-us-ashburn'']\<rparr>)) this))
       = Some ''US''"
proof -
  have known: "(\<forall>alts. loc_alternatives e = Some alts \<longrightarrow>
           alts \<noteq> []
           \<and> ctx_insightLocationId (normalizeContext c)
               = Some (case find (\<lambda>a. a \<in> set acc) alts of Some a \<Rightarrow> a | None \<Rightarrow> hd alts))
        \<and> (\<exists>e'. AlInsightLocations (tmpl (ctx_insightLocationId (normalizeContext c))) = Some e'
                \<and> ctx_residency (normalizeContext c) = Some (loc_residency e'))"
    if t: "truthy (ctx_insightLocationId c)" and a: "ctx_accessible c = Some acc"
      and e: "AlInsightLocations (tmpl (ctx_insightLocationId c)) = Some e"
  proof -
    note n = normalizeContext_known_id [OF t a e]
    from e show ?thesis
    proof (cases rule: AlInsightLocations_cases)
      case 1
      with n e show ?thesis by simp
    next
      case 2
      with n e show ?thesis by simp
    next
      case 3
      with n e show ?thesis by simp
    next
      case 4
      with n show ?thesis
        by (simp add: tmpl_def AlInsightLocations_def)
    next
      case 5
      with n show ?thesis
        by (simp add: tmpl_def AlInsightLocations_def)
    qed
  qed
  have example:
    "ctx_insightLocationId (context (setContext
         (Some (partial_context\<lparr>ctx_insightLocationId := Some ''insight-us-virginia'',
                                 ctx_accessible := Some [''defender-us-ashburn'']\<rparr>)) this))
       = Some ''defender-us-ashburn''
     \<and> ctx_residency (context (setContext
         (Some (partial_context\<lparr>ctx_insightLocationId := Some ''insight-us-virginia'',
                                 ctx_accessible := Some [''defender-us-ashburn'']\<rparr>)) this))
       = Some ''US''"
    by (simp add: setContext_fields normalizeContext_virginia_ashburn pick_def truthy_def
          partial_context_def merge_accessible_def)
  from known example normalizeContext_no_id [of c] show ?thesis
    by blast
qed

theorem normalizeContext_alternatives_witness:
  "truthy (Some ''insight-us-virginia'')
   \<and> AlInsightLocations ''insight-us-virginia''
       = Some \<lparr>loc_residency = ''US'', loc_residencyCaption = ''UNITED STATES'',
               loc_alternatives = Some [''defender-us-denver'', ''defender-us-ashburn''],
               loc_logicalRegion = ''us-east-1''\<rparr>
   \<and> ctx_insightLocationId (normalizeContext
         \<lparr>ctx_environment = Some ''production'', ctx_residency = Some ''EMEA'',
          ctx_insightLocationId = Some ''insight-us-virginia'',
          ctx_accessible = Some [''defender-us-ashburn'']\<rparr>) = Some ''defender-us-ashburn''
   \<and> ctx_residency (normalizeContext
         \<lparr>ctx_environment = Some ''production'', ctx_residency = Some ''EMEA'',
          ctx_insightLocationId = Some ''insight-us-virginia'',
          ctx_accessible = Some [''defender-us-ashburn'']\<rparr>) = Some ''US''
   \<and> normalizeContext
         \<lparr>ctx_environment = Some ''production'', ctx_residency = Some ''EMEA'',
          ctx_insightLocationId = Some ''insight-us-virginia'', ctx_accessible = None\<rparr>
       = \<lparr>ctx_environment = Some ''production'', ctx_residency = Some ''EMEA'',
          ctx_insightLocationId = Some ''insight-us-virginia'', ctx_accessible = None\<rparr>"
proof -
  let ?c = "\<lparr>ctx_environment = Some ''production'', ctx_residency = Some ''EMEA'',
             ctx_insightLocationId = Some ''insight-us-virginia'',
             ctx_accessible = Some [''defender-us-ashburn'']\<rparr>"
  let ?e = "\<lparr>loc_residency = ''US'', loc_residencyCaption = ''UNITED STATES'',
             loc_alternatives = Some [''defender-us-denver'', ''defender-us-ashburn''],
             loc_logicalRegion = ''us-east-1''\<rparr>"
  let ?d = "\<lparr>ctx_environment = Some ''production'', ctx_residency = Some ''EMEA'',
             ctx_insightLocationId = Some ''insight-us-virginia'', ctx_accessible = None\<rparr>"
  have t: "truthy (Some ''insight-us-virginia'')"
    by (simp add: truthy_def)
  have e: "AlInsightLocations ''insight-us-virginia'' = Some ?e"
    by (rule AlInsightLocations_virginia)
  have h: "truthy (ctx_insightLocationId ?c) \<and> ctx_accessible ?c = Some [''defender-us-ashburn'']
             \<and> AlInsightLocations (tmpl (ctx_insightLocationId ?c)) = Some ?e"
    using t e by (simp add: tmpl_def)
  have a: "loc_alternatives ?e = Some [''defender-us-denver'', ''defender-us-ashburn'']"
    by simp
  note n = normalizeContext_alternatives
    [where c = ?c and acc = "[''defender-us-ashburn'']" and e = ?e and this = "initial (store [])"]
  note k = mp [OF conjunct1 [OF n] h]
  from mp [OF spec [OF conjunct1 [OF k]] a]
  have i: "ctx_insightLocationId (normalizeContext ?c) = Some ''defender-us-ashburn''"
    by simp
  from conjunct2 [OF k] i have r: "ctx_residency (normalizeContext ?c) = Some ''US''"
    by (auto simp: tmpl_def AlInsightLocations_def)
  have "\<not> truthy (ctx_insightLocationId ?d) \<or> ctx_accessible ?d = None"
    by simp
  from mp [OF conjunct1 [OF conjunct2 [OF normalizeContext_alternatives
     [where c = ?d and this = "initial (store [])"]]] this]
  have "normalizeContext ?d = ?d" .
  with t e i r show ?thesis
    by simp
qed

subsection \<open>\<open>setContext\<close>: the memo and the merge\<close>

lemma getNode_empty_memo:
  "nodes this = [] \<Longrightarrow>
   map_sum fst fst (getNode t None this)
     = Inr (lookupNode (nodeMap this) t (ctx_environment (context this))
         (ctx_residency (context this)) (ctx_insightLocationId (context this))
         (ctx_accessible (context this)))"
  by (simp add: getNode_def hasOwnProperty_def pick_def pick_accessible_def Let_def)

lemma findOne_memo: "findOne p (this\<lparr>nodes := m\<rparr>) = findOne p this"
  by (simp add: findOne_def search_def)

lemma bound_residency_residency:
  "ctx_residency (bound_residency this cx)
     = (if truthy (ctx_insightLocationId cx) then
          (case findOne (\<lambda>n. insightLocationId n = ctx_insightLocationId cx) this of
             None \<Rightarrow> ctx_residency cx
           | Some l \<Rightarrow> if truthy (residency (heap this l)) then residency (heap this l)
                       else ctx_residency cx)
        else ctx_residency cx)"
  by (simp add: bound_residency_def split: option.splits)

text \<open>The context after the five assignments, before the normalization.\<close>

lemma setContext_merged:
  "merge_residency c (merge_environment c (bound_residency (this\<lparr>nodes := []\<rparr>)
     (merge_accessible c (merge_insightLocationId c (context this)))))
   = \<lparr>ctx_environment = pick ctx_environment c (context this),
      ctx_residency =
        (if (case c of None \<Rightarrow> False | Some x \<Rightarrow> truthy (ctx_residency x))
         then ctx_residency (the c)
         else if truthy (pick ctx_insightLocationId c (context this)) then
           (case findOne (\<lambda>n. insightLocationId n = pick ctx_insightLocationId c (context this))
                   this of
              None \<Rightarrow> ctx_residency (context this)
            | Some l \<Rightarrow> if truthy (residency (heap this l)) then residency (heap this l)
                        else ctx_residency (context this))
         else ctx_residency (context this)),
      ctx_insightLocationId = pick ctx_insightLocationId c (context this),
      ctx_accessible =
        (case c of None \<Rightarrow> ctx_accessible (context this)
         | Some x \<Rightarrow> if ctx_accessible x \<noteq> None \<and> the (ctx_accessible x) \<noteq> []
                     then ctx_accessible x else ctx_accessible (context this))\<rparr>"
proof (rule AlLocationContext.equality)
  let ?cx = "merge_accessible c (merge_insightLocationId c (context this))"
  let ?lhs = "merge_residency c (merge_environment c (bound_residency (this\<lparr>nodes := []\<rparr>) ?cx))"
  have "ctx_residency ?lhs = (case c of None \<Rightarrow> ctx_residency (bound_residency (this\<lparr>nodes := []\<rparr>) ?cx)
                    | Some x \<Rightarrow> if truthy (ctx_residency x) then ctx_residency x
                                else ctx_residency (bound_residency (this\<lparr>nodes := []\<rparr>) ?cx))"
    by (simp add: pick_def split: option.splits)
  then show "ctx_residency ?lhs = ctx_residency
     \<lparr>ctx_environment = pick ctx_environment c (context this),
      ctx_residency =
        (if (case c of None \<Rightarrow> False | Some x \<Rightarrow> truthy (ctx_residency x))
         then ctx_residency (the c)
         else if truthy (pick ctx_insightLocationId c (context this)) then
           (case findOne (\<lambda>n. insightLocationId n = pick ctx_insightLocationId c (context this))
                   this of
              None \<Rightarrow> ctx_residency (context this)
            | Some l \<Rightarrow> if truthy (residency (heap this l)) then residency (heap this l)
                        else ctx_residency (context this))
         else ctx_residency (context this)),
      ctx_insightLocationId = pick ctx_insightLocationId c (context this),
      ctx_accessible =
        (case c of None \<Rightarrow> ctx_accessible (context this)
         | Some x \<Rightarrow> if ctx_accessible x \<noteq> None \<and> the (ctx_accessible x) \<noteq> []
                     then ctx_accessible x else ctx_accessible (context this))\<rparr>"
    by (simp add: bound_residency_residency findOne_memo split: option.splits)
qed (simp_all add: merge_accessible_def pick_def split: option.splits)

text \<open>
  Claim C6 says that \<open>setContext\<close> leaves every field that its argument omits at the
  value the field has. With a descriptor loaded that is bound to the data center
  \<open>defender-uk-newport\<close> and has the residency \<open>EMEA\<close>, \<open>setContext\<close> with that id and
  nothing else changes the residency of the context from \<open>US\<close> to \<open>EMEA\<close>.
\<close>

theorem setContext_residency_of_bound_node:
  "(case setLocations [0] (initial (store newport_api)) of
      Inl e \<Rightarrow> False
    | Inr this \<Rightarrow>
        ctx_residency (context this) = Some ''US''
        \<and> ctx_residency (partial_context\<lparr>ctx_insightLocationId := Some ''defender-uk-newport''\<rparr>)
            = None
        \<and> ctx_residency (context (setContext
              (Some (partial_context\<lparr>ctx_insightLocationId := Some ''defender-uk-newport''\<rparr>))
              this)) = Some ''EMEA'')"
  by code_simp

text \<open>
  Claim C6, amended. Every call of \<open>setContext\<close>, with an argument or without, returns
  with an empty memo, and a \<open>getNode\<close> without explicit context that follows returns
  what the node map holds under the new context. The new context is the normalization
  of the merged context \<open>m\<close>, whose fields are these. The environment and the data-center
  id \<open>i\<close> are those of the argument when they are non-empty there, and the existing ones
  otherwise; the accessible list \<open>a\<close> is that of the argument when it is a non-empty
  list, and the existing one otherwise. The residency \<open>r\<close> is that of the argument when
  it is non-empty there; otherwise, when \<open>i\<close> is non-empty and the first entry of the
  node map whose descriptor is bound to \<open>i\<close> has a non-empty residency, it is the
  residency of that descriptor; otherwise it is the existing one. The normalization
  leaves \<open>m\<close> as it is when \<open>i\<close> is empty, when there is no accessible list, or when \<open>i\<close>
  is not a key of \<open>AlInsightLocations\<close>; otherwise it sets the residency to the one the
  table declares for \<open>i\<close> and, when the entry of \<open>i\<close> declares alternatives, the id to
  the first alternative that is accessible, or to the first alternative when none is.
\<close>

theorem setContext_flushes_memo_and_merges:
  "(let i = pick ctx_insightLocationId c (context this);
        a = (case c of None \<Rightarrow> ctx_accessible (context this)
             | Some x \<Rightarrow> if ctx_accessible x \<noteq> None \<and> the (ctx_accessible x) \<noteq> []
                         then ctx_accessible x else ctx_accessible (context this));
        r = (if (case c of None \<Rightarrow> False | Some x \<Rightarrow> truthy (ctx_residency x))
             then ctx_residency (the c)
             else if truthy i then
               (case findOne (\<lambda>n. insightLocationId n = i) this of
                  None \<Rightarrow> ctx_residency (context this)
                | Some l \<Rightarrow> if truthy (residency (heap this l)) then residency (heap this l)
                            else ctx_residency (context this))
             else ctx_residency (context this));
        m = \<lparr>ctx_environment = pick ctx_environment c (context this), ctx_residency = r,
             ctx_insightLocationId = i, ctx_accessible = a\<rparr>
    in nodes (setContext c this) = []
       \<and> map_sum fst fst (getNode t None (setContext c this))
           = Inr (lookupNode (nodeMap this) t
               (ctx_environment (context (setContext c this)))
               (ctx_residency (context (setContext c this)))
               (ctx_insightLocationId (context (setContext c this)))
               (ctx_accessible (context (setContext c this))))
       \<and> context (setContext c this) = normalizeContext m
       \<and> (\<not> truthy i \<or> a = None \<or> AlInsightLocations (tmpl i) = None \<longrightarrow>
            context (setContext c this) = m)
       \<and> (\<forall>acc e. truthy i \<and> a = Some acc \<and> AlInsightLocations (tmpl i) = Some e \<longrightarrow>
            context (setContext c this)
              = m\<lparr>ctx_insightLocationId :=
                    (case loc_alternatives e of
                       None \<Rightarrow> i
                     | Some alts \<Rightarrow>
                         (case find (\<lambda>x. x \<in> set acc) alts of
                            None \<Rightarrow> (case alts of [] \<Rightarrow> None | x # _ \<Rightarrow> Some x)
                          | Some x \<Rightarrow> Some x)),
                  ctx_residency := Some (loc_residency e)\<rparr>))"
proof -
  define i where "i = pick ctx_insightLocationId c (context this)"
  define a where "a = (case c of None \<Rightarrow> ctx_accessible (context this)
             | Some x \<Rightarrow> if ctx_accessible x \<noteq> None \<and> the (ctx_accessible x) \<noteq> []
                         then ctx_accessible x else ctx_accessible (context this))"
  define r where "r = (if (case c of None \<Rightarrow> False | Some x \<Rightarrow> truthy (ctx_residency x))
             then ctx_residency (the c)
             else if truthy i then
               (case findOne (\<lambda>n. insightLocationId n = i) this of
                  None \<Rightarrow> ctx_residency (context this)
                | Some l \<Rightarrow> if truthy (residency (heap this l)) then residency (heap this l)
                            else ctx_residency (context this))
             else ctx_residency (context this))"
  define m where "m = \<lparr>ctx_environment = pick ctx_environment c (context this),
             ctx_residency = r, ctx_insightLocationId = i, ctx_accessible = a\<rparr>"
  have fm: "ctx_insightLocationId m = i" "ctx_accessible m = a" "ctx_residency m = r"
    by (simp_all add: m_def)
  have memo: "nodes (setContext c this) = []"
    by (simp add: setContext_fields)
  have fresh: "map_sum fst fst (getNode t None (setContext c this))
       = Inr (lookupNode (nodeMap this) t
           (ctx_environment (context (setContext c this)))
           (ctx_residency (context (setContext c this)))
           (ctx_insightLocationId (context (setContext c this)))
           (ctx_accessible (context (setContext c this))))"
    using getNode_empty_memo [OF memo, of t] by (simp add: setContext_fields(3))
  have cx: "context (setContext c this) = normalizeContext m"
    unfolding setContext_fields(7) setContext_merged m_def r_def a_def i_def ..
  have plain: "context (setContext c this) = m"
    if "\<not> truthy i \<or> a = None \<or> AlInsightLocations (tmpl i) = None"
    using that unfolding cx by (auto simp: normalizeContext_def fm)
  have known: "context (setContext c this)
              = m\<lparr>ctx_insightLocationId :=
                    (case loc_alternatives e of
                       None \<Rightarrow> i
                     | Some alts \<Rightarrow>
                         (case find (\<lambda>x. x \<in> set acc) alts of
                            None \<Rightarrow> (case alts of [] \<Rightarrow> None | x # _ \<Rightarrow> Some x)
                          | Some x \<Rightarrow> Some x)),
                  ctx_residency := Some (loc_residency e)\<rparr>"
    if t: "truthy i" and ac: "a = Some acc" and e: "AlInsightLocations (tmpl i) = Some e"
    for acc e
  proof -
    from e have ne: "loc_residency e \<noteq> []"
      by (cases rule: AlInsightLocations_cases) simp_all
    from t ac e have k: "truthy (ctx_insightLocationId m)" "ctx_accessible m = Some acc"
      "AlInsightLocations (tmpl (ctx_insightLocationId m)) = Some e"
      by (simp_all add: fm)
    show ?thesis
      unfolding cx
    proof (rule AlLocationContext.equality)
      show "ctx_insightLocationId (normalizeContext m) = ctx_insightLocationId
          (m\<lparr>ctx_insightLocationId :=
                    (case loc_alternatives e of
                       None \<Rightarrow> i
                     | Some alts \<Rightarrow>
                         (case find (\<lambda>x. x \<in> set acc) alts of
                            None \<Rightarrow> (case alts of [] \<Rightarrow> None | x # _ \<Rightarrow> Some x)
                          | Some x \<Rightarrow> Some x)),
                  ctx_residency := Some (loc_residency e)\<rparr>)"
        unfolding normalizeContext_known_id(1) [OF k]
        by (simp add: fm select_alternative_find split: option.splits)
      show "ctx_residency (normalizeContext m) = ctx_residency
          (m\<lparr>ctx_insightLocationId :=
                    (case loc_alternatives e of
                       None \<Rightarrow> i
                     | Some alts \<Rightarrow>
                         (case find (\<lambda>x. x \<in> set acc) alts of
                            None \<Rightarrow> (case alts of [] \<Rightarrow> None | x # _ \<Rightarrow> Some x)
                          | Some x \<Rightarrow> Some x)),
                  ctx_residency := Some (loc_residency e)\<rparr>)"
        using normalizeContext_known_id(2) [OF k ne] by simp
    qed simp_all
  qed
  from memo fresh cx plain known show ?thesis
    unfolding Let_def i_def [symmetric] a_def [symmetric] r_def [symmetric] m_def [symmetric]
    by blast
qed

lemma newport_context_loaded:
  "(case setLocations [0] (initial (store newport_api)) of
      Inl e \<Rightarrow> False
    | Inr this \<Rightarrow>
        context this = \<lparr>ctx_environment = Some ''production'', ctx_residency = Some ''US'',
                         ctx_insightLocationId = None, ctx_accessible = None\<rparr>
        \<and> findOne (\<lambda>n. insightLocationId n = Some ''defender-uk-newport'') this = Some 0
        \<and> residency (heap this 0) = Some ''EMEA''
        \<and> findOne (\<lambda>n. insightLocationId n = Some ''insight-eu-ireland'') this = None)"
  by code_simp

lemma AlInsightLocations_ireland:
  "AlInsightLocations ''insight-eu-ireland''
     = Some \<lparr>loc_residency = ''EMEA'', loc_residencyCaption = ''UNITED KINGDOM'',
             loc_alternatives = Some [''defender-uk-newport''],
             loc_logicalRegion = ''uk-west-1''\<rparr>"
  by (simp add: AlInsightLocations_def)

theorem setContext_flushes_memo_and_merges_witness:
  "(case setLocations [0] (initial (store newport_api)) of
      Inl e \<Rightarrow> False
    | Inr this \<Rightarrow>
        ctx_accessible (context this) = None
        \<and> context (setContext
            (Some (partial_context\<lparr>ctx_insightLocationId := Some ''defender-uk-newport''\<rparr>)) this)
          = \<lparr>ctx_environment = Some ''production'', ctx_residency = Some ''EMEA'',
             ctx_insightLocationId = Some ''defender-uk-newport'', ctx_accessible = None\<rparr>
        \<and> context (setContext
            (Some (partial_context\<lparr>ctx_insightLocationId := Some ''defender-uk-newport'',
                                    ctx_residency := Some ''US''\<rparr>)) this)
          = \<lparr>ctx_environment = Some ''production'', ctx_residency = Some ''US'',
             ctx_insightLocationId = Some ''defender-uk-newport'', ctx_accessible = None\<rparr>
        \<and> context (setContext
            (Some (partial_context\<lparr>ctx_insightLocationId := Some ''insight-eu-ireland'',
                                    ctx_accessible := Some [''defender-uk-newport'']\<rparr>)) this)
          = \<lparr>ctx_environment = Some ''production'', ctx_residency = Some ''EMEA'',
             ctx_insightLocationId = Some ''defender-uk-newport'',
             ctx_accessible = Some [''defender-uk-newport'']\<rparr>)"
proof (cases "setLocations [0] (initial (store newport_api))")
  case (Inl e)
  with newport_context_loaded show ?thesis by simp
next
  case (Inr this)
  with newport_context_loaded have
    cx: "context this = \<lparr>ctx_environment = Some ''production'', ctx_residency = Some ''US'',
                         ctx_insightLocationId = None, ctx_accessible = None\<rparr>"
    and f: "findOne (\<lambda>n. insightLocationId n = Some ''defender-uk-newport'') this = Some 0"
    and r: "residency (heap this 0) = Some ''EMEA''"
    and g: "findOne (\<lambda>n. insightLocationId n = Some ''insight-eu-ireland'') this = None"
    by simp_all
  let ?c1 = "Some (partial_context\<lparr>ctx_insightLocationId := Some ''defender-uk-newport''\<rparr>)"
  let ?c2 = "Some (partial_context\<lparr>ctx_insightLocationId := Some ''defender-uk-newport'',
                                    ctx_residency := Some ''US''\<rparr>)"
  let ?c3 = "Some (partial_context\<lparr>ctx_insightLocationId := Some ''insight-eu-ireland'',
                                    ctx_accessible := Some [''defender-uk-newport'']\<rparr>)"
  note n1 = setContext_flushes_memo_and_merges
      [where c = ?c1 and this = this and t = "''t''", unfolded Let_def]
  note n2 = setContext_flushes_memo_and_merges
      [where c = ?c2 and this = this and t = "''t''", unfolded Let_def]
  note n3 = setContext_flushes_memo_and_merges
      [where c = ?c3 and this = this and t = "''t''", unfolded Let_def]
  have a: "context (setContext ?c1 this)
          = \<lparr>ctx_environment = Some ''production'', ctx_residency = Some ''EMEA'',
             ctx_insightLocationId = Some ''defender-uk-newport'', ctx_accessible = None\<rparr>"
    using conjunct1 [OF conjunct2 [OF conjunct2 [OF conjunct2 [OF n1]]]] cx f r
    by (simp add: pick_def truthy_def partial_context_def)
  have b: "context (setContext ?c2 this)
          = \<lparr>ctx_environment = Some ''production'', ctx_residency = Some ''US'',
             ctx_insightLocationId = Some ''defender-uk-newport'', ctx_accessible = None\<rparr>"
    using conjunct1 [OF conjunct2 [OF conjunct2 [OF conjunct2 [OF n2]]]] cx f r
    by (simp add: pick_def truthy_def partial_context_def)
  have c: "context (setContext ?c3 this)
          = \<lparr>ctx_environment = Some ''production'', ctx_residency = Some ''EMEA'',
             ctx_insightLocationId = Some ''defender-uk-newport'',
             ctx_accessible = Some [''defender-uk-newport'']\<rparr>"
    using conjunct2 [OF conjunct2 [OF conjunct2 [OF conjunct2 [OF n3]]]] cx g
    by (simp add: pick_def truthy_def tmpl_def partial_context_def AlInsightLocations_ireland)
  from Inr cx a b c show ?thesis
    by simp
qed

subsection \<open>Clearing the acting node\<close>




subsection \<open>Patterns without operators\<close>

text \<open>
  A \<open>uri\<close> without the characters \<open>*\<close>, \<open>+\<close> and \<open>?\<close> compiles to the expression
  that matches the \<open>uri\<close> itself, character by character, at the beginning of the input,
  followed by anything up to the end of the input.
\<close>

lemma rx_quantifier_plain: "starts_plain s \<Longrightarrow> rx_quantifier s = (Once, s)"
  by (cases s) (simp_all add: starts_plain_def)

lemma replace_first_star_none: "CHR ''*'' \<notin> set s \<Longrightarrow> replace_first_star r s = s"
  by (induction s) auto

lemma set_escape_regex_chars: "set (escape_regex_chars u) \<subseteq> insert (CHR 0x5C) (set u)"
  by (induction u) (auto simp: escape_regex_chars_def)

lemma escapeLocationPattern_plain:
  assumes "CHR ''*'' \<notin> set u"
  shows "escapeLocationPattern u = ''^'' @ escape_regex_chars u @ ''.*$''"
proof -
  from assms set_escape_regex_chars [of u] have "CHR ''*'' \<notin> set (''^'' @ escape_regex_chars u)"
    by auto
  then show ?thesis
    by (simp add: escapeLocationPattern_def replace_first_star_none)
qed

lemma escape_regex_chars_Cons:
  "escape_regex_chars (c # u)
     = (if c \<in> set escaped_chars then [CHR 0x5C, c] else [c]) @ escape_regex_chars u"
  by (simp add: escape_regex_chars_def)

lemma starts_plain_escape:
  assumes "CHR ''*'' \<notin> set u" "CHR ''+'' \<notin> set u" "CHR ''?'' \<notin> set u" "starts_plain rest"
  shows "starts_plain (escape_regex_chars u @ rest)"
  using assms by (cases u) (auto simp: escape_regex_chars_Cons escape_regex_chars_def starts_plain_def)

lemma rx_parse_literal:
  assumes "CHR ''*'' \<notin> set u" "CHR ''+'' \<notin> set u" "CHR ''?'' \<notin> set u" "starts_plain rest"
  shows "rx_parse (escape_regex_chars u @ rest)
           = map_option ((@) (map (\<lambda>c. (Lit c, Once)) u)) (rx_parse rest)"
  using assms
proof (induction u)
  case Nil
  then show ?case
    by (simp add: escape_regex_chars_def option.map_ident)
next
  case (Cons c u)
  let ?tl = "escape_regex_chars u @ rest"
  from Cons.prems have sp: "starts_plain ?tl"
    by (intro starts_plain_escape) simp_all
  from Cons.prems have IH: "rx_parse ?tl = map_option ((@) (map (\<lambda>c. (Lit c, Once)) u)) (rx_parse rest)"
    by (intro Cons.IH) simp_all
  have atom: "rx_atom_of (escape_regex_chars (c # u) @ rest) = Some (Lit c, ?tl)"
  proof (cases "c \<in> set escaped_chars")
    case True
    then show ?thesis
      by (simp add: escape_regex_chars_Cons)
  next
    case False
    then have "c \<noteq> CHR 0x5C" "c \<noteq> CHR ''[''" "c \<noteq> CHR ''.''" "c \<noteq> CHR ''^''"
      "c \<noteq> CHR ''$''" "c \<noteq> CHR ''(''" "c \<noteq> CHR '')''" "c \<noteq> CHR ''|''" "c \<noteq> CHR ''{''"
      "c \<noteq> CHR ''}''" "c \<noteq> CHR '']''"
      by (auto simp: escaped_chars_def)
    moreover from Cons.prems have "c \<noteq> CHR ''*''" "c \<noteq> CHR ''+''" "c \<noteq> CHR ''?''"
      by auto
    ultimately show ?thesis
      using False by (simp add: escape_regex_chars_Cons)
  qed
  have ne: "escape_regex_chars (c # u) \<noteq> []"
    by (simp add: escape_regex_chars_Cons)
  have "rx_parse (escape_regex_chars (c # u) @ rest)
          = map_option ((#) (Lit c, Once)) (rx_parse ?tl)"
    by (subst rx_parse.simps) (simp add: atom ne rx_quantifier_plain [OF sp])
  with IH show ?case
    by (simp add: option.map_comp comp_def)
qed

lemma rx_parse_tail: "rx_parse ''.*$'' = Some [(AnyChar, Star), (Eol, Once)]"
  by code_simp

lemma rx_parse_plain:
  assumes "CHR ''*'' \<notin> set u" "CHR ''+'' \<notin> set u" "CHR ''?'' \<notin> set u"
  shows "rx_parse (escapeLocationPattern u)
           = Some ((Bol, Once) # map (\<lambda>c. (Lit c, Once)) u @ [(AnyChar, Star), (Eol, Once)])"
proof -
  have "starts_plain ''.*$''"
    by (simp add: starts_plain_def)
  with assms have "rx_parse (escape_regex_chars u @ ''.*$'')
      = Some (map (\<lambda>c. (Lit c, Once)) u @ [(AnyChar, Star), (Eol, Once)])"
    by (simp add: rx_parse_literal rx_parse_tail)
  moreover have "rx_parse (''^'' @ escape_regex_chars u @ ''.*$'')
      = map_option ((#) (Bol, Once)) (rx_parse (escape_regex_chars u @ ''.*$''))"
    by (subst rx_parse.simps) simp
  ultimately show ?thesis
    using assms by (simp add: escapeLocationPattern_plain)
qed

lemma rx_match_any_tail:
  "CHR 0x0A \<notin> set s \<Longrightarrow> CHR 0x0D \<notin> set s \<Longrightarrow> rx_match [(AnyChar, Star), (Eol, Once)] b s"
  by (induction s arbitrary: b) auto

lemma rx_match_literal:
  "rx_match (map (\<lambda>c. (Lit c, Once)) u @ r) b (u @ s) = rx_match r (b \<and> u = []) s"
  by (induction u arbitrary: b) simp_all

lemma rx_match_Bol: "rx_match ((Bol, q) # r) True s = rx_match r True s"
  by simp

lemma rx_test_plain:
  assumes "CHR 0x0A \<notin> set s" "CHR 0x0D \<notin> set s"
  shows "rx_test ((Bol, Once) # map (\<lambda>c. (Lit c, Once)) u @ [(AnyChar, Star), (Eol, Once)]) (u @ s)"
proof -
  have "rx_match [(AnyChar, Star), (Eol, Once)] (True \<and> u = []) s"
    using assms by (rule rx_match_any_tail)
  then have "rx_match ((Bol, Once) # map (\<lambda>c. (Lit c, Once)) u @ [(AnyChar, Star), (Eol, Once)])
          True (u @ s)"
    by (simp only: rx_match_Bol rx_match_literal)
  then have "rx_match ((Bol, Once) # map (\<lambda>c. (Lit c, Once)) u @ [(AnyChar, Star), (Eol, Once)])
          (0 = (0::nat)) (drop 0 (u @ s))"
    by simp
  moreover have "(0::nat) \<in> set [0..<Suc (length (u @ s))]"
    by simp
  ultimately show ?thesis
    unfolding rx_test_def list_ex_iff by blast
qed

subsection \<open>Reverse lookup of a registered \<open>uri\<close>\<close>

lemma getNodeByURI_loop_skip:
  "\<forall>(k, (m, a)) \<in> set pre. \<not> rx_test m t \<Longrightarrow>
   getNodeByURI_loop (pre @ rest) t this = getNodeByURI_loop rest t this"
  by (induction pre) auto

lemma cut_at_append:
  "c \<notin> set u \<Longrightarrow> c \<in> set s \<Longrightarrow> cut_at c (u @ s) = u @ takeWhile (\<lambda>x. x \<noteq> c) s"
proof -
  assume "c \<notin> set u" and "c \<in> set s"
  then have "takeWhile (\<lambda>x. x \<noteq> c) (u @ s) = u @ takeWhile (\<lambda>x. x \<noteq> c) s"
    by (intro takeWhile_append2) auto
  with \<open>c \<in> set s\<close> show ?thesis
    by (simp add: cut_at_def)
qed

lemma getBaseUrl_example:
  assumes "CHR ''#'' \<notin> set u" "CHR ''?'' \<notin> set u"
  shows "getBaseUrl (u @ ''/some/path?query=1#frag'') = u @ ''/some/path''"
proof -
  have "cut_at (CHR ''#'') (u @ ''/some/path?query=1#frag'') = u @ ''/some/path?query=1''"
    using assms by (subst cut_at_append) simp_all
  moreover have "cut_at (CHR ''?'') (u @ ''/some/path?query=1'') = u @ ''/some/path''"
    using assms by (subst cut_at_append) simp_all
  ultimately show ?thesis
    by (simp add: getBaseUrl_def Let_def butlast_append)
qed

text \<open>
  Claim C3 says that \<open>findByUri\<close> of a URL under the \<open>uri\<close> of a loaded descriptor
  \<open>N\<close> returns \<open>N\<close> when no pattern registered earlier matches, and rewrites the \<open>uri\<close>
  of \<open>N\<close>. The index is keyed by pattern: with two descriptors of the same \<open>uri\<close>
  loaded, the index has one pattern, the one of both, bound to the descriptor loaded
  last. The lookup returns that one and rewrites it; the first descriptor keeps its
  \<open>uri\<close>.
\<close>

theorem getNodeByURI_shared_uri:
  "(case setLocations [0, 1] (initial (store shared_host)) of
      Inl e \<Rightarrow> False
    | Inr this \<Rightarrow>
        uri (heap this 0) = ''https://x.example.com''
        \<and> map fst (uriMap this) = [escapeLocationPattern ''https://x.example.com'']
        \<and> fst (getNodeByURI ''https://x.example.com/some/path?query=1#frag'' this) = Some 1
        \<and> uri (heap (snd (getNodeByURI ''https://x.example.com/some/path?query=1#frag'' this)) 0)
            = ''https://x.example.com''
        \<and> uri (heap (snd (getNodeByURI ''https://x.example.com/some/path?query=1#frag'' this)) 1)
            = ''https://x.example.com/some/path'')"
  by code_simp

text \<open>
  Claim C3, amended. Let \<open>U\<close> be a \<open>uri\<close> without the characters \<open>*\<close>, \<open>+\<close> and \<open>?\<close>,
  let the index hold the descriptor \<open>N\<close> under the pattern of \<open>U\<close> (\<open>N\<close> was loaded with
  the \<open>uri\<close> or an alias \<open>U\<close>, and no descriptor loaded later has registered the same
  pattern), and let no entry before it in the index match the target. Then \<open>findByUri\<close>
  of \<open>U\<close> followed by any suffix without line terminator returns \<open>N\<close>. After the call
  the \<open>uri\<close> of \<open>N\<close> is the base URL of the target, and its \<open>_fullURI\<close> too when the
  base URL was not the \<open>uri\<close> of \<open>N\<close> before; when it was, nothing is changed. For the
  suffix \<open>/some/path?query=1#frag\<close> and a \<open>U\<close> without \<open>#\<close>, the base URL is
  \<open>U\<close> followed by \<open>/some/path\<close>.
\<close>

theorem getNodeByURI_finds_registered_uri:
  assumes "uriMap this = pre @ (escapeLocationPattern U, (rx, n)) # post"
      and "rx_parse (escapeLocationPattern U) = Some rx"
      and "CHR ''*'' \<notin> set U \<and> CHR ''+'' \<notin> set U \<and> CHR ''?'' \<notin> set U"
      and "\<forall>(k, (m, a)) \<in> set pre. \<not> rx_test m (U @ sfx)"
      and "CHR 0x0A \<notin> set sfx \<and> CHR 0x0D \<notin> set sfx"
  shows "getNodeByURI (U @ sfx) this
           = (Some n,
              if getBaseUrl (U @ sfx) = uri (heap this n) then this
              else this\<lparr>heap := (heap this)
                     (n := (heap this n)\<lparr>uri := getBaseUrl (U @ sfx),
                                          fullURI := Some (getBaseUrl (U @ sfx))\<rparr>)\<rparr>)
         \<and> uri (heap (snd (getNodeByURI (U @ sfx) this)) n) = getBaseUrl (U @ sfx)
         \<and> (CHR ''#'' \<notin> set U \<longrightarrow>
              getBaseUrl (U @ ''/some/path?query=1#frag'') = U @ ''/some/path'')"
proof -
  from assms(2,3) have "rx = (Bol, Once) # map (\<lambda>c. (Lit c, Once)) U @ [(AnyChar, Star), (Eol, Once)]"
    by (simp add: rx_parse_plain)
  with assms(5) have t: "rx_test rx (U @ sfx)"
    by (simp add: rx_test_plain)
  have "getNodeByURI (U @ sfx) this
          = getNodeByURI_loop ((escapeLocationPattern U, (rx, n)) # post) (U @ sfx) this"
    unfolding getNodeByURI_def assms(1) using assms(4) by (rule getNodeByURI_loop_skip)
  with t have r: "getNodeByURI (U @ sfx) this
           = (Some n,
              if getBaseUrl (U @ sfx) = uri (heap this n) then this
              else this\<lparr>heap := (heap this)
                     (n := (heap this n)\<lparr>uri := getBaseUrl (U @ sfx),
                                          fullURI := Some (getBaseUrl (U @ sfx))\<rparr>)\<rparr>)"
    by (simp add: Let_def)
  then have "uri (heap (snd (getNodeByURI (U @ sfx) this)) n) = getBaseUrl (U @ sfx)"
    by simp
  with r assms(3) show ?thesis
    by (simp add: getBaseUrl_example)
qed

lemma x_example_loaded:
  "(case setLocations [0] (initial (store [descriptor ''x'' ''https://x.example.com''])) of
      Inl e \<Rightarrow> False
    | Inr this \<Rightarrow>
        uriMap this
          = [] @ (escapeLocationPattern ''https://x.example.com'',
                  (the (rx_parse (escapeLocationPattern ''https://x.example.com'')), 0)) # []
        \<and> rx_parse (escapeLocationPattern ''https://x.example.com'')
            = Some (the (rx_parse (escapeLocationPattern ''https://x.example.com'')))
        \<and> uri (heap this 0) = ''https://x.example.com'')"
  by code_simp

theorem getNodeByURI_finds_registered_uri_witness:
  "(case setLocations [0] (initial (store [descriptor ''x'' ''https://x.example.com''])) of
      Inl e \<Rightarrow> False
    | Inr this \<Rightarrow>
        uri (heap this 0) = ''https://x.example.com''
        \<and> fst (getNodeByURI ''https://x.example.com/some/path?query=1#frag'' this) = Some 0
        \<and> uri (heap (snd (getNodeByURI ''https://x.example.com/some/path?query=1#frag'' this)) 0)
            = ''https://x.example.com/some/path''
        \<and> fullURI (heap (snd (getNodeByURI ''https://x.example.com/some/path?query=1#frag''
              this)) 0) = Some ''https://x.example.com/some/path'')"
proof (cases "setLocations [0] (initial (store [descriptor ''x'' ''https://x.example.com'']))")
  case (Inl e)
  with x_example_loaded show ?thesis by simp
next
  case (Inr this)
  let ?U = "''https://x.example.com''"
  let ?rx = "the (rx_parse (escapeLocationPattern ?U))"
  from x_example_loaded Inr have
    m: "uriMap this = [] @ (escapeLocationPattern ?U, (?rx, 0)) # []"
    and p: "rx_parse (escapeLocationPattern ?U) = Some ?rx"
    and u: "uri (heap this 0) = ?U"
    by simp_all
  have o: "CHR ''*'' \<notin> set ?U \<and> CHR ''+'' \<notin> set ?U \<and> CHR ''?'' \<notin> set ?U"
    by simp
  have e: "\<forall>(k, (m, a)) \<in> set []. \<not> rx_test m (?U @ ''/some/path?query=1#frag'')"
    by simp
  have l: "CHR 0x0A \<notin> set ''/some/path?query=1#frag'' \<and> CHR 0x0D \<notin> set ''/some/path?query=1#frag''"
    by simp
  note r = getNodeByURI_finds_registered_uri [OF m p o e l]
  have h: "CHR ''#'' \<notin> set ?U"
    by simp
  from mp [OF conjunct2 [OF conjunct2 [OF r]] h]
  have b: "getBaseUrl (?U @ ''/some/path?query=1#frag'') = ''https://x.example.com/some/path''"
    by simp
  from conjunct1 [OF r] u b
  have g: "getNodeByURI (?U @ ''/some/path?query=1#frag'') this
      = (Some 0, this\<lparr>heap := (heap this)
           (0 := (heap this 0)\<lparr>uri := ''https://x.example.com/some/path'',
                                fullURI := Some ''https://x.example.com/some/path''\<rparr>)\<rparr>)"
    by simp
  have "?U @ ''/some/path?query=1#frag'' = ''https://x.example.com/some/path?query=1#frag''"
    by simp
  with g Inr u show ?thesis
    by simp
qed

subsection \<open>Loading\<close>

lemma saveNode_writes:
  "saveNode node this
     = addUriMapping node
         (this\<lparr>nodeMap := dict_writes (map (\<lambda>k. (k, node)) (saveNode_keys (heap this node)))
                              (nodeMap this)\<rparr>)"
  by (simp add: saveNode_def saveNode_keys_def Let_def)

text \<open>The patterns of a descriptor that are written before one fails to compile.\<close>

lemma add_patterns_writes:
  "add_patterns node us um
     = (if list_all (\<lambda>u. rx_parse (escapeLocationPattern u) \<noteq> None) us
        then Inr (dict_writes
                    (map (\<lambda>u. (escapeLocationPattern u,
                                (the (rx_parse (escapeLocationPattern u)), node))) us) um)
        else Inl (SyntaxError,
                  dict_writes
                    (map (\<lambda>u. (escapeLocationPattern u,
                                (the (rx_parse (escapeLocationPattern u)), node)))
                       (takeWhile (\<lambda>u. rx_parse (escapeLocationPattern u) \<noteq> None) us)) um))"
  by (induction us arbitrary: um) (auto simp: add_pattern_def split: option.splits)

lemma add_pattern_one: "add_pattern node u um = add_patterns node [u] um"
  by (simp split: sum.splits)

lemma addUriMapping_writes:
  "addUriMapping node this
     = (if list_all (\<lambda>u. rx_parse (escapeLocationPattern u) \<noteq> None) (uri_patterns (heap this node))
        then Inr (this\<lparr>uriMap := dict_writes
                    (map (\<lambda>u. (escapeLocationPattern u,
                                (the (rx_parse (escapeLocationPattern u)), node)))
                       (uri_patterns (heap this node)))
                    (uriMap this)\<rparr>)
        else Inl (SyntaxError,
                  this\<lparr>uriMap := dict_writes
                    (map (\<lambda>u. (escapeLocationPattern u,
                                (the (rx_parse (escapeLocationPattern u)), node)))
                       (takeWhile (\<lambda>u. rx_parse (escapeLocationPattern u) \<noteq> None)
                          (uri_patterns (heap this node))))
                    (uriMap this)\<rparr>))"
proof (cases "aliases (heap this node)")
  case None
  then show ?thesis
    by (simp add: addUriMapping_def uri_patterns_def add_pattern_one add_patterns_writes
          del: add_patterns.simps)
next
  case (Some as)
  then show ?thesis
    by (simp add: addUriMapping_def uri_patterns_def add_pattern_one add_patterns_writes
          del: add_patterns.simps)
qed

lemma saveNode_eq:
  "saveNode node this
     = (if list_all (\<lambda>u. rx_parse (escapeLocationPattern u) \<noteq> None) (uri_patterns (heap this node))
        then Inr (this\<lparr>nodeMap := dict_writes (map (\<lambda>k. (k, node)) (saveNode_keys (heap this node)))
                                       (nodeMap this),
                       uriMap := dict_writes
                         (map (\<lambda>u. (escapeLocationPattern u,
                                     (the (rx_parse (escapeLocationPattern u)), node)))
                            (uri_patterns (heap this node)))
                         (uriMap this)\<rparr>)
        else Inl (SyntaxError,
                  this\<lparr>nodeMap := dict_writes (map (\<lambda>k. (k, node)) (saveNode_keys (heap this node)))
                                       (nodeMap this),
                       uriMap := dict_writes
                         (map (\<lambda>u. (escapeLocationPattern u,
                                     (the (rx_parse (escapeLocationPattern u)), node)))
                            (takeWhile (\<lambda>u. rx_parse (escapeLocationPattern u) \<noteq> None)
                               (uri_patterns (heap this node))))
                         (uriMap this)\<rparr>))"
  by (simp add: saveNode_writes addUriMapping_writes)

lemma setLocations_eq:
  "setLocations ns this
     = (if patterns_compile (heap this) ns
        then Inr (this\<lparr>nodeMap := dict_writes (node_writes (heap this) ns) (nodeMap this),
                       uriMap := dict_writes (uri_writes (heap this) ns) (uriMap this)\<rparr>)
        else Inl (SyntaxError,
                  this\<lparr>nodeMap := dict_writes
                         (node_writes (heap this)
                            (takeWhile (\<lambda>n. patterns_compile (heap this) [n]) ns
                             @ [ns ! length (takeWhile (\<lambda>n. patterns_compile (heap this) [n]) ns)]))
                         (nodeMap this),
                       uriMap := dict_writes
                         (uri_writes (heap this)
                            (takeWhile (\<lambda>n. patterns_compile (heap this) [n]) ns)
                          @ map (\<lambda>u. (escapeLocationPattern u,
                                       (the (rx_parse (escapeLocationPattern u)),
                                        ns ! length (takeWhile (\<lambda>n. patterns_compile (heap this) [n]) ns))))
                              (takeWhile (\<lambda>u. rx_parse (escapeLocationPattern u) \<noteq> None)
                                 (uri_patterns (heap this
                                    (ns ! length (takeWhile (\<lambda>n. patterns_compile (heap this) [n]) ns))))))
                         (uriMap this)\<rparr>))"
proof (induction ns arbitrary: this)
  case Nil
  show ?case
    by (simp add: patterns_compile_def node_writes_def uri_writes_def)
next
  case (Cons n ns)
  show ?case
  proof (cases "list_all (\<lambda>u. rx_parse (escapeLocationPattern u) \<noteq> None)
                  (uri_patterns (heap this n))")
    case False
    then show ?thesis
      by (simp add: saveNode_eq patterns_compile_def node_writes_def uri_writes_def)
  next
    case True
    then show ?thesis
      by (simp add: saveNode_eq Cons.IH patterns_compile_def node_writes_def uri_writes_def)
  qed
qed

lemma map_of_dict_assign:
  "map_of (dict_assign k0 v0 d) k
     = (if k = k0 then map_option (\<lambda>_. v0) (map_of d k) else map_of d k)"
  by (induction d) auto

lemma map_of_dict_set: "map_of (dict_set k0 v0 d) k = (if k = k0 then Some v0 else map_of d k)"
proof (cases "hasOwnProperty d k0")
  case True
  then obtain v where "map_of d k0 = Some v"
    unfolding hasOwnProperty_def by (metis domIff dom_map_of_conv_image_fst not_Some_eq)
  with True show ?thesis
    by (simp add: dict_set_def map_of_dict_assign)
next
  case False
  then have "map_of d k0 = None"
    unfolding hasOwnProperty_def by (simp add: map_of_eq_None_iff)
  with False show ?thesis
    by (auto simp: dict_set_def map_add_def split: option.splits)
qed

text \<open>
  After a sequence of assignments a key holds the value of the last assignment to it,
  and the value it had when nothing was assigned to it.
\<close>

lemma dict_get_dict_writes:
  "dict_get (dict_writes ws d) k
     = (case map_of (rev ws) k of Some v \<Rightarrow> Some v | None \<Rightarrow> dict_get d k)"
proof (induction ws arbitrary: d)
  case Nil
  show ?case by simp
next
  case (Cons w ws)
  obtain k0 v0 where w: "w = (k0, v0)"
    by (cases w)
  have "dict_get (dict_writes (w # ws) d) k
          = (case map_of (rev ws) k of Some v \<Rightarrow> Some v | None \<Rightarrow> dict_get (dict_set k0 v0 d) k)"
    using Cons.IH [of "dict_set k0 v0 d"] w by simp
  also have "\<dots> = (case map_of (rev (w # ws)) k of Some v \<Rightarrow> Some v | None \<Rightarrow> dict_get d k)"
    using w by (simp add: dict_get_def map_of_dict_set map_add_def split: option.splits)
  finally show ?case .
qed

text \<open>The keys a dictionary has keep their places; new keys are added behind them.\<close>

lemma keys_prefix_dict_writes:
  "take (length d) (map fst (dict_writes ws d)) = map fst d"
proof (induction ws arbitrary: d)
  case Nil
  show ?case by simp
next
  case (Cons w ws)
  obtain k0 v0 where w: "w = (k0, v0)"
    by (cases w)
  let ?d = "dict_set k0 v0 d"
  have l: "length d \<le> length ?d" and p: "take (length d) (map fst ?d) = map fst d"
    using map_fst_dict_set [of k0 v0 d] length_map [of fst ?d]
    by (auto simp: dict_set_def map_fst_dict_assign split: if_splits)
  have "take (length d) (map fst (dict_writes (w # ws) d))
          = take (length d) (take (length ?d) (map fst (dict_writes ws ?d)))"
    using l w by (simp add: min_def)
  also have "\<dots> = take (length d) (map fst ?d)"
    unfolding Cons.IH ..
  finally show ?case
    using p by simp
qed

text \<open>
  Claim C8 says that \<open>load\<close> clears the indices and rebuilds them from the catalog it
  is given, so that nothing of a catalog loaded before can be reached. \<open>setLocations\<close>
  clears nothing. After the global API is loaded and then, in a second call, the
  Newport API, \<open>getNode\<close> still finds the global API under its type and
  \<open>getNodeByURI\<close> under its URL.
\<close>

theorem setLocations_keeps_earlier_catalog:
  "(case setLocations [0] (initial (store (global_api @ newport_api))) of
      Inl e \<Rightarrow> False
    | Inr this \<Rightarrow>
        (case setLocations [1] this of
           Inl e \<Rightarrow> False
         | Inr this' \<Rightarrow>
             map_sum fst fst (getNode ''global:api'' None this') = Inr (Some 0)
             \<and> fst (getNodeByURI ''https://api.global.alertlogic.com'' this') = Some 0))"
  by code_simp

text \<open>
  Claim C8, amended. \<open>load\<close> adds the entries of the catalog to the indices and
  replaces the entries it finds under the same keys; it removes nothing. When every
  pattern of the catalog compiles, \<open>load\<close> returns, and then: a key that the catalog
  writes holds the entry of the last write to it, in the node index the descriptor and
  in the URI index the compiled pattern with the descriptor; every other key holds what
  it held before, so that on an instance with empty indices the indices hold the entries
  of the catalog and no others; the keys that were there keep their places in the order
  of the keys; the memo, the context and the descriptors are as before; and loading the
  same catalog a second time changes nothing, so that the instance, and with it the
  result of every lookup, is what it is after the first load. When a pattern does not
  compile, \<open>load\<close> throws a \<open>SyntaxError\<close> and leaves a partial state: the indices hold
  the writes of the descriptors before the failing one, the node index holds the keys of
  the failing descriptor as well, and the URI index holds those of its patterns that
  come before the failing pattern; the descriptors behind the failing one are not
  loaded.
\<close>

theorem setLocations_adds_and_replaces:
  "(setLocations ns this = Inr this' \<longrightarrow>
      patterns_compile (heap this) ns
      \<and> (\<forall>k. dict_get (nodeMap this') k
               = (case map_of (rev (node_writes (heap this) ns)) k of
                    Some n \<Rightarrow> Some n
                  | None \<Rightarrow> dict_get (nodeMap this) k))
      \<and> (\<forall>k. dict_get (uriMap this') k
               = (case map_of (rev (uri_writes (heap this) ns)) k of
                    Some e \<Rightarrow> Some e
                  | None \<Rightarrow> dict_get (uriMap this) k))
      \<and> (nodeMap this = [] \<longrightarrow>
           (\<forall>k. dict_get (nodeMap this') k = map_of (rev (node_writes (heap this) ns)) k))
      \<and> (uriMap this = [] \<longrightarrow>
           (\<forall>k. dict_get (uriMap this') k = map_of (rev (uri_writes (heap this) ns)) k))
      \<and> take (length (nodeMap this)) (map fst (nodeMap this')) = map fst (nodeMap this)
      \<and> take (length (uriMap this)) (map fst (uriMap this')) = map fst (uriMap this)
      \<and> nodes this' = nodes this \<and> context this' = context this \<and> heap this' = heap this
      \<and> setLocations ns this' = Inr this')
   \<and> (patterns_compile (heap this) ns \<longrightarrow> (\<exists>this'. setLocations ns this = Inr this'))
   \<and> (setLocations ns this = Inl (e, this') \<longrightarrow>
        (let loaded = takeWhile (\<lambda>n. patterns_compile (heap this) [n]) ns;
             failing = ns ! length loaded;
             compiled = takeWhile (\<lambda>u. rx_parse (escapeLocationPattern u) \<noteq> None)
                          (uri_patterns (heap this failing))
         in e = SyntaxError
            \<and> length loaded < length ns
            \<and> \<not> patterns_compile (heap this) [failing]
            \<and> nodeMap this'
                = dict_writes (node_writes (heap this) (loaded @ [failing])) (nodeMap this)
            \<and> uriMap this'
                = dict_writes
                    (uri_writes (heap this) loaded
                     @ map (\<lambda>u. (escapeLocationPattern u,
                                  (the (rx_parse (escapeLocationPattern u)), failing)))
                         compiled)
                    (uriMap this)
            \<and> nodes this' = nodes this \<and> context this' = context this
            \<and> heap this' = heap this))"
proof -
  have loaded: "patterns_compile (heap this) ns
      \<and> (\<forall>k. dict_get (nodeMap this') k
               = (case map_of (rev (node_writes (heap this) ns)) k of
                    Some n \<Rightarrow> Some n
                  | None \<Rightarrow> dict_get (nodeMap this) k))
      \<and> (\<forall>k. dict_get (uriMap this') k
               = (case map_of (rev (uri_writes (heap this) ns)) k of
                    Some e \<Rightarrow> Some e
                  | None \<Rightarrow> dict_get (uriMap this) k))
      \<and> (nodeMap this = [] \<longrightarrow>
           (\<forall>k. dict_get (nodeMap this') k = map_of (rev (node_writes (heap this) ns)) k))
      \<and> (uriMap this = [] \<longrightarrow>
           (\<forall>k. dict_get (uriMap this') k = map_of (rev (uri_writes (heap this) ns)) k))
      \<and> take (length (nodeMap this)) (map fst (nodeMap this')) = map fst (nodeMap this)
      \<and> take (length (uriMap this)) (map fst (uriMap this')) = map fst (uriMap this)
      \<and> nodes this' = nodes this \<and> context this' = context this \<and> heap this' = heap this
      \<and> setLocations ns this' = Inr this'"
    if ret: "setLocations ns this = Inr this'"
  proof -
    from ret have ok: "patterns_compile (heap this) ns"
      and eq: "this' = this\<lparr>nodeMap := dict_writes (node_writes (heap this) ns) (nodeMap this),
                            uriMap := dict_writes (uri_writes (heap this) ns) (uriMap this)\<rparr>"
      by (simp_all add: setLocations_eq split: if_splits)
    from eq have h: "heap this' = heap this"
      and n: "nodeMap this' = dict_writes (node_writes (heap this) ns) (nodeMap this)"
      and u: "uriMap this' = dict_writes (uri_writes (heap this) ns) (uriMap this)"
      and r: "nodes this' = nodes this" "context this' = context this"
      by simp_all
    have "setLocations ns this'
            = Inr (this'\<lparr>nodeMap := dict_writes (node_writes (heap this) ns) (nodeMap this'),
                         uriMap := dict_writes (uri_writes (heap this) ns) (uriMap this')\<rparr>)"
      using ok h by (simp add: setLocations_eq)
    also have "\<dots> = Inr this'"
      unfolding n u dict_writes_idem by (simp add: eq)
    finally have idem: "setLocations ns this' = Inr this'" .
    have gn: "dict_get (nodeMap this') k
               = (case map_of (rev (node_writes (heap this) ns)) k of
                    Some n \<Rightarrow> Some n
                  | None \<Rightarrow> dict_get (nodeMap this) k)" for k
      unfolding n by (rule dict_get_dict_writes)
    have gu: "dict_get (uriMap this') k
               = (case map_of (rev (uri_writes (heap this) ns)) k of
                    Some e \<Rightarrow> Some e
                  | None \<Rightarrow> dict_get (uriMap this) k)" for k
      unfolding u by (rule dict_get_dict_writes)
    have fn: "dict_get (nodeMap this') k = map_of (rev (node_writes (heap this) ns)) k"
      if "nodeMap this = []" for k
      unfolding gn using that by (simp add: dict_get_def split: option.splits)
    have fu: "dict_get (uriMap this') k = map_of (rev (uri_writes (heap this) ns)) k"
      if "uriMap this = []" for k
      unfolding gu using that by (simp add: dict_get_def split: option.splits)
    have pn: "take (length (nodeMap this)) (map fst (nodeMap this')) = map fst (nodeMap this)"
      unfolding n by (rule keys_prefix_dict_writes)
    have pu: "take (length (uriMap this)) (map fst (uriMap this')) = map fst (uriMap this)"
      unfolding u by (rule keys_prefix_dict_writes)
    from ok gn gu fn fu pn pu r h idem show ?thesis
      by blast
  qed
  have returns: "\<exists>this'. setLocations ns this = Inr this'"
    if "patterns_compile (heap this) ns"
    using that by (simp add: setLocations_eq)
  have thrown: "(let loaded = takeWhile (\<lambda>n. patterns_compile (heap this) [n]) ns;
             failing = ns ! length loaded;
             compiled = takeWhile (\<lambda>u. rx_parse (escapeLocationPattern u) \<noteq> None)
                          (uri_patterns (heap this failing))
         in e = SyntaxError
            \<and> length loaded < length ns
            \<and> \<not> patterns_compile (heap this) [failing]
            \<and> nodeMap this'
                = dict_writes (node_writes (heap this) (loaded @ [failing])) (nodeMap this)
            \<and> uriMap this'
                = dict_writes
                    (uri_writes (heap this) loaded
                     @ map (\<lambda>u. (escapeLocationPattern u,
                                  (the (rx_parse (escapeLocationPattern u)), failing)))
                         compiled)
                    (uriMap this)
            \<and> nodes this' = nodes this \<and> context this' = context this
            \<and> heap this' = heap this)"
    if thr: "setLocations ns this = Inl (e, this')"
  proof -
    let ?P = "\<lambda>n. patterns_compile (heap this) [n]"
    from thr have no: "\<not> patterns_compile (heap this) ns"
      by (auto simp: setLocations_eq split: if_splits)
    then have "\<not> (\<forall>n\<in>set ns. ?P n)"
      by (simp add: patterns_compile_def list_all_iff)
    then have "takeWhile ?P ns \<noteq> ns"
      by (simp add: takeWhile_eq_all_conv)
    with length_takeWhile_le [of ?P ns] have less: "length (takeWhile ?P ns) < length ns"
      by (metis le_neq_implies_less takeWhile_eq_take take_all_iff le_refl)
    from nth_length_takeWhile [OF less] have bad: "\<not> ?P (ns ! length (takeWhile ?P ns))" .
    from thr no have "e = SyntaxError"
      and "this' = this\<lparr>nodeMap := dict_writes
                         (node_writes (heap this)
                            (takeWhile ?P ns @ [ns ! length (takeWhile ?P ns)]))
                         (nodeMap this),
                       uriMap := dict_writes
                         (uri_writes (heap this) (takeWhile ?P ns)
                          @ map (\<lambda>u. (escapeLocationPattern u,
                                       (the (rx_parse (escapeLocationPattern u)),
                                        ns ! length (takeWhile ?P ns))))
                              (takeWhile (\<lambda>u. rx_parse (escapeLocationPattern u) \<noteq> None)
                                 (uri_patterns (heap this (ns ! length (takeWhile ?P ns))))))
                         (uriMap this)\<rparr>"
      by (simp_all add: setLocations_eq)
    with less bad show ?thesis
      unfolding Let_def by simp
  qed
  from loaded returns thrown show ?thesis
    by blast
qed

lemma two_catalogs:
  "patterns_compile (heap (initial (store (global_api @ newport_api)))) [0]
   \<and> patterns_compile (heap (initial (store (global_api @ newport_api)))) [1]
   \<and> nodeMap (initial (store (global_api @ newport_api))) = []
   \<and> map_of (rev (node_writes (heap (initial (store (global_api @ newport_api)))) [0]))
        ''global:api-*-*'' = Some 0
   \<and> map_of (rev (node_writes (heap (initial (store (global_api @ newport_api)))) [1]))
        ''global:api-*-*'' = None
   \<and> map_of (rev (node_writes (heap (initial (store (global_api @ newport_api)))) [1]))
        ''insight:api-*-*'' = Some 1"
  by code_simp

lemma unparsable_alias_throws:
  "(case setLocations [0, 1, 2] (initial (store unparsable_alias)) of
      Inl (e, this') \<Rightarrow> True
    | Inr this' \<Rightarrow> False)"
  by code_simp

lemma unparsable_alias_partial:
  "(let loaded = takeWhile (\<lambda>n. patterns_compile (heap (initial (store unparsable_alias))) [n])
                   [0, 1, 2];
        failing = [0, 1, 2] ! length loaded;
        compiled = takeWhile (\<lambda>u. rx_parse (escapeLocationPattern u) \<noteq> None)
                     (uri_patterns (heap (initial (store unparsable_alias)) failing))
    in dict_writes (node_writes (heap (initial (store unparsable_alias))) (loaded @ [failing]))
         (nodeMap (initial (store unparsable_alias)))
       = [(''ok-*-*'', 0), (''bad-*-*'', 1)]
       \<and> map fst (dict_writes
            (uri_writes (heap (initial (store unparsable_alias))) loaded
             @ map (\<lambda>u. (escapeLocationPattern u,
                          (the (rx_parse (escapeLocationPattern u)), failing)))
                 compiled)
            (uriMap (initial (store unparsable_alias))))
         = [escapeLocationPattern ''https://ok.example.com'',
            escapeLocationPattern ''https://bad.example.com''])"
  by code_simp

theorem setLocations_adds_and_replaces_witness:
  "(case setLocations [0] (initial (store (global_api @ newport_api))) of
      Inl e \<Rightarrow> False
    | Inr this \<Rightarrow>
        dict_get (nodeMap this) ''global:api-*-*'' = Some 0
        \<and> (case setLocations [1] this of
             Inl e \<Rightarrow> False
           | Inr this' \<Rightarrow>
               setLocations [1] this' = Inr this'
               \<and> dict_get (nodeMap this') ''global:api-*-*'' = Some 0
               \<and> dict_get (nodeMap this') ''insight:api-*-*'' = Some 1))
   \<and> (case setLocations [0, 1, 2] (initial (store unparsable_alias)) of
        Inl (e, this') \<Rightarrow>
          e = SyntaxError
          \<and> nodeMap this' = [(''ok-*-*'', 0), (''bad-*-*'', 1)]
          \<and> map fst (uriMap this')
              = [escapeLocationPattern ''https://ok.example.com'',
                 escapeLocationPattern ''https://bad.example.com'']
      | Inr this' \<Rightarrow> False)"
proof -
  let ?s0 = "initial (store (global_api @ newport_api))"
  let ?s1 = "initial (store unparsable_alias)"
  from two_catalogs have
    c0: "patterns_compile (heap ?s0) [0]" and c1: "patterns_compile (heap ?s0) [1]"
    and e0: "nodeMap ?s0 = []"
    and w0: "map_of (rev (node_writes (heap ?s0) [0])) ''global:api-*-*'' = Some 0"
    and w1: "map_of (rev (node_writes (heap ?s0) [1])) ''global:api-*-*'' = None"
    and w2: "map_of (rev (node_writes (heap ?s0) [1])) ''insight:api-*-*'' = Some 1"
    by simp_all
  from mp [OF conjunct1 [OF conjunct2 [OF setLocations_adds_and_replaces
      [where ns = "[0]" and this = ?s0]]] c0]
  obtain this where l0: "setLocations [0] ?s0 = Inr this"
    by blast
  note t0 = mp [OF conjunct1 [OF setLocations_adds_and_replaces
      [where ns = "[0]" and this = ?s0 and this' = this]] l0]
  from t0 have h0: "heap this = heap ?s0"
    by (elim conjE)
  from t0 e0 have "\<forall>k. dict_get (nodeMap this) k = map_of (rev (node_writes (heap ?s0) [0])) k"
    by blast
  then have "dict_get (nodeMap this) ''global:api-*-*''
      = map_of (rev (node_writes (heap ?s0) [0])) ''global:api-*-*''"
    by (rule spec)
  with w0 have g0: "dict_get (nodeMap this) ''global:api-*-*'' = Some 0"
    by simp
  from c1 h0 have "patterns_compile (heap this) [1]"
    by simp
  from mp [OF conjunct1 [OF conjunct2 [OF setLocations_adds_and_replaces
      [where ns = "[1]" and this = this]]] this]
  obtain this' where l1: "setLocations [1] this = Inr this'"
    by blast
  note t1 = mp [OF conjunct1 [OF setLocations_adds_and_replaces
      [where ns = "[1]" and this = this and this' = this']] l1]
  from t1 have idem: "setLocations [1] this' = Inr this'"
    by (elim conjE)
  from conjunct1 [OF conjunct2 [OF t1]]
  have get: "dict_get (nodeMap this') k
               = (case map_of (rev (node_writes (heap this) [1])) k of
                    Some n \<Rightarrow> Some n
                  | None \<Rightarrow> dict_get (nodeMap this) k)" for k
    by (rule spec)
  from get [of "''global:api-*-*''"] w1 g0 h0
  have g1: "dict_get (nodeMap this') ''global:api-*-*'' = Some 0"
    by simp
  from get [of "''insight:api-*-*''"] w2 h0
  have g2: "dict_get (nodeMap this') ''insight:api-*-*'' = Some 1"
    by simp
  have first: "(case setLocations [0] ?s0 of
      Inl e \<Rightarrow> False
    | Inr this \<Rightarrow>
        dict_get (nodeMap this) ''global:api-*-*'' = Some 0
        \<and> (case setLocations [1] this of
             Inl e \<Rightarrow> False
           | Inr this' \<Rightarrow>
               setLocations [1] this' = Inr this'
               \<and> dict_get (nodeMap this') ''global:api-*-*'' = Some 0
               \<and> dict_get (nodeMap this') ''insight:api-*-*'' = Some 1))"
    using l0 l1 g0 idem g1 g2 by simp
  from unparsable_alias_throws obtain e this2 where
    thr: "setLocations [0, 1, 2] ?s1 = Inl (e, this2)"
    by (cases "setLocations [0, 1, 2] ?s1") auto
  note t2 = mp [OF conjunct2 [OF conjunct2 [OF setLocations_adds_and_replaces
      [where ns = "[0, 1, 2]" and this = ?s1 and e = e and this' = this2]]] thr,
      unfolded Let_def]
  note p2 = unparsable_alias_partial [unfolded Let_def]
  from t2 have e: "e = SyntaxError"
    by (rule conjunct1)
  from t2 p2 have n2: "nodeMap this2 = [(''ok-*-*'', 0), (''bad-*-*'', 1)]"
    by (elim conjE) (rule trans)
  from t2 p2 have u2: "map fst (uriMap this2)
              = [escapeLocationPattern ''https://ok.example.com'',
                 escapeLocationPattern ''https://bad.example.com'']"
    by (elim conjE) (erule ssubst)
  from first thr e n2 u2 show ?thesis
    by simp
qed

subsection \<open>\<open>search\<close> and \<open>findOne\<close>\<close>

























end
